theory Spec2Isabelle
  imports Main "HOL-Library.Multiset" "HOL-Library.Product_Lexorder"
    "HOL-Library.List_Lexorder" "HOL-Library.Char_ord"
begin

section \<open>Relational data model\<close>

text \<open>
  The Django models of \<^verbatim>\<open>account/models.py\<close>, \<^verbatim>\<open>actions/models.py\<close> and
  \<^verbatim>\<open>images/models.py\<close>, one record per model and one list of rows per table (rows in
  insertion order). Primary keys are Python integers. A timestamp is an integer number of
  microseconds, the resolution of Python's \<^verbatim>\<open>datetime\<close>.
\<close>

definition timedelta_seconds :: "int \<Rightarrow> int" where
  "timedelta_seconds n = n * 1000000"

text \<open>The model classes a generic foreign key can point at (Django's content types).\<close>

datatype content_type = UserModel | ProfileModel | ContactModel | ActionModel | ImageModel

record User =
  user_pk :: int
  username :: string

text \<open>\<^verbatim>\<open>Contact\<close>: \<^verbatim>\<open>user_from\<close> follows \<^verbatim>\<open>user_to\<close>.\<close>

record Contact =
  user_from :: int
  user_to :: int
  contact_created :: int

text \<open>
  \<^verbatim>\<open>Action\<close>: the generic foreign key \<^verbatim>\<open>target\<close> is the pair of nullable columns
  \<^verbatim>\<open>target_ct\<close>, \<^verbatim>\<open>target_id\<close>.
\<close>

record Action =
  action_pk :: int
  user_id :: int
  verb :: string
  created :: int
  target_ct :: "content_type option"
  target_id :: "int option"

record Image =
  image_pk :: int
  image_user :: int
  title :: string
  slug :: string
  image_created :: int
  total_likes :: nat

text \<open>
  The database. \<^verbatim>\<open>users_like\<close> is the through table of \<^verbatim>\<open>Image.users_like\<close>: a row
  \<open>(i, u)\<close> says that user \<open>u\<close> likes image \<open>i\<close>. \<open>action_seq\<close> is the last key the
  \<^verbatim>\<open>Action\<close> table's auto-increment sequence has handed out: an inserted row gets the next
  one, and a key is never handed out twice, also after rows were deleted.
\<close>

record db =
  users :: "User list"
  contacts :: "Contact list"
  actions :: "Action list"
  action_seq :: int
  images :: "Image list"
  users_like :: "(int \<times> int) list"

definition empty_db :: db where
  "empty_db = \<lparr>users = [], contacts = [], actions = [], action_seq = 0, images = [],
     users_like = []\<rparr>"

section \<open>Recording actions (\<^verbatim>\<open>actions/utils.py\<close>)\<close>

text \<open>
  The query of \<^verbatim>\<open>create_action\<close>, lines 21 to 33: the rows of the same user and verb
  created at or after \<^verbatim>\<open>now - 60s\<close> (\<^verbatim>\<open>created__gte\<close>), and, only when a target is given
  (\<^verbatim>\<open>if target:\<close>, a model instance is always truthy), of that target.
\<close>

definition similar_actions ::
  "Action list \<Rightarrow> int \<Rightarrow> int \<Rightarrow> string \<Rightarrow> (content_type \<times> int) option \<Rightarrow> Action list" where
  "similar_actions tbl now uid v target =
     (let last_minute = now - timedelta_seconds 60;
          similar = filter (\<lambda>a. user_id a = uid \<and> verb a = v \<and> last_minute \<le> created a) tbl
      in case target of
           None \<Rightarrow> similar
         | Some (ct, tid) \<Rightarrow>
             filter (\<lambda>a. target_ct a = Some ct \<and> target_id a = Some tid) similar)"

text \<open>
  \<^verbatim>\<open>create_action(user, verb, target=None)\<close>. The clock is read twice: \<open>now\<close> is
  \<^verbatim>\<open>timezone.now()\<close> of line 21, and \<open>save_now\<close> is the reading that
  \<^verbatim>\<open>auto_now_add=True\<close> stores in \<^verbatim>\<open>created\<close> when \<^verbatim>\<open>action.save()\<close> inserts the row.
  The result is the returned flag and the database after the call.
\<close>

definition create_action ::
  "int \<Rightarrow> int \<Rightarrow> db \<Rightarrow> int \<Rightarrow> string \<Rightarrow> (content_type \<times> int) option \<Rightarrow> bool \<times> db" where
  "create_action now save_now s uid v target =
     (if similar_actions (actions s) now uid v target = [] then
        (True,
         s\<lparr>actions := actions s @
            [\<lparr>action_pk = action_seq s + 1, user_id = uid, verb = v,
              created = save_now, target_ct = map_option fst target,
              target_id = map_option snd target\<rparr>],
           action_seq := action_seq s + 1\<rparr>)
      else (False, s))"

section \<open>The external key-value store\<close>

text \<open>
  Exceptions that leave a view: \<^verbatim>\<open>Http404\<close> of \<^verbatim>\<open>get_object_or_404\<close>, the
  \<^verbatim>\<open>redis.ConnectionError\<close> of the store's client, and Python's \<^verbatim>\<open>ValueError\<close>.
\<close>

datatype error = Http404 | ConnectionError | ValueError

text \<open>
  Python's \<^verbatim>\<open>str\<close> of an integer, which \<^verbatim>\<open>f'image:{image.id}:views'\<close> and the store's
  client (for the member of \<^verbatim>\<open>zincrby\<close>) apply to \<^verbatim>\<open>image.id\<close>.
\<close>

fun str_nat :: "nat \<Rightarrow> string" where
  "str_nat n =
     (if n < 10 then [''0123456789'' ! n]
      else str_nat (n div 10) @ [''0123456789'' ! (n mod 10)])"

declare str_nat.simps [simp del]

definition str_int :: "int \<Rightarrow> string" where
  "str_int i = (if i < 0 then CHR ''-'' # str_nat (nat (- i)) else str_nat (nat i))"

text \<open>
  Modelled from the spec: the external key-value / sorted-set store of spec section 6 (a
  Redis server behind the module-level client \<^verbatim>\<open>r\<close>; neither is code of the repository),
  with its three commands \<^verbatim>\<open>INCR(key) -> integer\<close>, \<^verbatim>\<open>ZINCRBY(set, delta, member)\<close> and
  \<^verbatim>\<open>ZRANGE(set, start, stop, desc)\<close>. Counters are unbounded integers and a missing
  counter counts as 0; a sorted set is a list of (member, score) pairs with one pair per
  member, scores are integers, and the descending range orders by score and, among equal
  scores, by member, both downwards. \<open>reachable\<close> says whether the store answers; a command
  sent to an unreachable store raises \<^verbatim>\<open>ConnectionError\<close>.
\<close>

record redis =
  reachable :: bool
  strings :: "string \<Rightarrow> int option"
  zsets :: "string \<Rightarrow> (string \<times> int) list"

definition empty_redis :: redis where
  "empty_redis = \<lparr>reachable = True, strings = (\<lambda>k. None), zsets = (\<lambda>k. [])\<rparr>"

definition incr :: "redis \<Rightarrow> string \<Rightarrow> error + (int \<times> redis)" where
  "incr r key =
     (if \<not> reachable r then Inl ConnectionError
      else let v = (case strings r key of None \<Rightarrow> 0 | Some c \<Rightarrow> c) + 1
           in Inr (v, r\<lparr>strings := (strings r)(key := Some v)\<rparr>))"

definition zscore :: "(string \<times> int) list \<Rightarrow> string \<Rightarrow> int option" where
  "zscore zs member = map_of zs member"

fun zadd_incr :: "(string \<times> int) list \<Rightarrow> int \<Rightarrow> string \<Rightarrow> (string \<times> int) list" where
  "zadd_incr [] amount member = [(member, amount)]"
| "zadd_incr ((m, sc) # zs) amount member =
     (if m = member then (m, sc + amount) # zs else (m, sc) # zadd_incr zs amount member)"

definition zincrby :: "redis \<Rightarrow> string \<Rightarrow> int \<Rightarrow> string \<Rightarrow> error + (int \<times> redis)" where
  "zincrby r key amount member =
     (if \<not> reachable r then Inl ConnectionError
      else let zs = zadd_incr (zsets r key) amount member
           in Inr (case zscore zs member of None \<Rightarrow> amount | Some sc \<Rightarrow> sc,
                   r\<lparr>zsets := (zsets r)(key := zs)\<rparr>))"

text \<open>\<^verbatim>\<open>r.zrange(key, 0, -1, desc=True)\<close>: every member, highest score first.\<close>

definition zrange_desc :: "redis \<Rightarrow> string \<Rightarrow> error + string list" where
  "zrange_desc r key =
     (if \<not> reachable r then Inl ConnectionError
      else Inr (map fst (rev (sort_key (\<lambda>(m, sc). (sc, m)) (zsets r key)))))"

section \<open>Requests and responses\<close>

text \<open>
  What the views read of a request: the method, the authenticated user (\<open>None\<close> for an
  anonymous request) and the POST parameters. A response is what the view returns: the
  redirect of \<^verbatim>\<open>login_required\<close>, the 405 of \<^verbatim>\<open>require_POST\<close>, a plain
  \<^verbatim>\<open>HttpResponse\<close> with its text, a \<^verbatim>\<open>JsonResponse\<close> with its \<^verbatim>\<open>status\<close>, or a rendered
  template with the context values the view computed.
\<close>

record request =
  req_method :: string
  req_user :: "User option"
  POST :: "string \<Rightarrow> string option"

datatype response =
    RedirectToLogin
  | NotAllowed
  | HttpResponse string
  | JsonResponse string
  | RenderDetail Image int
  | RenderRanking "Image list"
  | RenderDashboard "Action list"

section \<open>Image views (\<^verbatim>\<open>images/views.py\<close>, \<^verbatim>\<open>images/signals.py\<close>, \<^verbatim>\<open>images/models.py\<close>)\<close>

definition views_key :: "int \<Rightarrow> string" where
  "views_key i = ''image:'' @ str_int i @ '':views''"

text \<open>
  \<^verbatim>\<open>image_detail(request, id, slug)\<close>: 404 when no image has this id and slug (nothing
  is sent to the store then); otherwise \<^verbatim>\<open>incr\<close>, then \<^verbatim>\<open>zincrby\<close>, then the page with
  \<^verbatim>\<open>total_views\<close>. No exception of the store is caught. The result is the outcome and the
  store after the call.
\<close>

definition image_detail :: "redis \<Rightarrow> db \<Rightarrow> int \<Rightarrow> string \<Rightarrow> (error + response) \<times> redis" where
  "image_detail r s i sl =
     (case find (\<lambda>img. image_pk img = i \<and> slug img = sl) (images s) of
        None \<Rightarrow> (Inl Http404, r)
      | Some img \<Rightarrow>
          (case incr r (views_key (image_pk img)) of
             Inl e \<Rightarrow> (Inl e, r)
           | Inr (total_views, r1) \<Rightarrow>
               (case zincrby r1 ''image_ranking'' 1 (str_int (image_pk img)) of
                  Inl e \<Rightarrow> (Inl e, r1)
                | Inr (_, r2) \<Rightarrow> (Inr (RenderDetail img total_views), r2))))"

text \<open>\<^verbatim>\<open>xs.index(x)\<close> for an \<open>x\<close> that occurs in \<open>xs\<close>: the position of its first occurrence.\<close>

definition index_of :: "'a list \<Rightarrow> 'a \<Rightarrow> nat" where
  "index_of xs x = length (takeWhile (\<lambda>y. y \<noteq> x) xs)"

text \<open>
  \<^verbatim>\<open>Image.objects.filter(id__in=ids)\<close> under the model's \<^verbatim>\<open>ordering = ['-created']\<close>: the
  rows whose key is among \<open>ids\<close>, newest first (rows of equal timestamp in table order).
\<close>

definition images_id_in :: "db \<Rightarrow> int list \<Rightarrow> Image list" where
  "images_id_in s ids =
     sort_key (\<lambda>img. - image_created img) (filter (\<lambda>img. image_pk img \<in> set ids) (images s))"

text \<open>
  \<^verbatim>\<open>image_ranking(request)\<close>. \<open>py_int\<close> is Python's \<^verbatim>\<open>int\<close> on the members the store
  returns (\<open>None\<close> where it raises \<^verbatim>\<open>ValueError\<close>); the list comprehension fails as soon as
  one conversion fails. \<^verbatim>\<open>list.index\<close> raises \<^verbatim>\<open>ValueError\<close> for an image whose key is
  not among the ids. The sort is Python's stable sort on the key.
\<close>

definition image_ranking ::
  "(string \<Rightarrow> int option) \<Rightarrow> redis \<Rightarrow> db \<Rightarrow> request \<Rightarrow> error + response" where
  "image_ranking py_int r s req =
     (case req_user req of
        None \<Rightarrow> Inr RedirectToLogin
      | Some u \<Rightarrow>
          (case zrange_desc r ''image_ranking'' of
             Inl e \<Rightarrow> Inl e
           | Inr members \<Rightarrow>
               (let image_ranking = take 10 members in
                case those (map py_int image_ranking) of
                  None \<Rightarrow> Inl ValueError
                | Some image_ranking_ids \<Rightarrow>
                    (let most_viewed = images_id_in s image_ranking_ids in
                     if list_all (\<lambda>x. image_pk x \<in> set image_ranking_ids) most_viewed
                     then Inr (RenderRanking
                            (sort_key (\<lambda>x. index_of image_ranking_ids (image_pk x)) most_viewed))
                     else Inl ValueError))))"

text \<open>
  \<^verbatim>\<open>Image.save()\<close>: an empty slug is regenerated from the title (\<open>slugify\<close> is Django's
  \<^verbatim>\<open>django.utils.text.slugify\<close>), then the row of this key is written (inserted when the
  table has none). The result is the database and the instance as the call leaves it.
\<close>

definition Image_save :: "(string \<Rightarrow> string) \<Rightarrow> db \<Rightarrow> Image \<Rightarrow> db \<times> Image" where
  "Image_save slugify s img =
     (let img' = (if slug img = [] then img\<lparr>slug := slugify (title img)\<rparr> else img)
      in (s\<lparr>images :=
            (if image_pk img' \<in> set (map image_pk (images s))
             then map (\<lambda>row. if image_pk row = image_pk img' then img' else row) (images s)
             else images s @ [img'])\<rparr>, img'))"

text \<open>
  The receiver \<^verbatim>\<open>users_like_changed\<close> of \<^verbatim>\<open>m2m_changed\<close>:
  \<^verbatim>\<open>instance.total_likes = instance.users_like.count(); instance.save()\<close>.
\<close>

definition users_like_count :: "db \<Rightarrow> int \<Rightarrow> nat" where
  "users_like_count s i = length (filter (\<lambda>(img, u). img = i) (users_like s))"

definition users_like_changed :: "(string \<Rightarrow> string) \<Rightarrow> db \<Rightarrow> Image \<Rightarrow> db \<times> Image" where
  "users_like_changed slugify s inst =
     Image_save slugify s (inst\<lparr>total_likes := users_like_count s (image_pk inst)\<rparr>)"

text \<open>
  \<^verbatim>\<open>image.users_like.add(user)\<close> and \<^verbatim>\<open>image.users_like.remove(user)\<close>: Django sends
  \<^verbatim>\<open>m2m_changed\<close> before and after the change of the through table (\<^verbatim>\<open>pre_add\<close>,
  \<^verbatim>\<open>post_add\<close>, \<^verbatim>\<open>pre_remove\<close>, \<^verbatim>\<open>post_remove\<close>), and the receiver above runs on each.
  \<^verbatim>\<open>add\<close> inserts the pair only when the table does not have it.
\<close>

definition users_like_add :: "(string \<Rightarrow> string) \<Rightarrow> db \<Rightarrow> Image \<Rightarrow> int \<Rightarrow> db" where
  "users_like_add slugify s img uid =
     (case users_like_changed slugify s img of
        (s1, img1) \<Rightarrow>
          fst (users_like_changed slugify
            (s1\<lparr>users_like :=
                 (if (image_pk img, uid) \<in> set (users_like s1) then users_like s1
                  else users_like s1 @ [(image_pk img, uid)])\<rparr>)
            img1))"

definition users_like_remove :: "(string \<Rightarrow> string) \<Rightarrow> db \<Rightarrow> Image \<Rightarrow> int \<Rightarrow> db" where
  "users_like_remove slugify s img uid =
     (case users_like_changed slugify s img of
        (s1, img1) \<Rightarrow>
          fst (users_like_changed slugify
            (s1\<lparr>users_like := filter (\<lambda>p. p \<noteq> (image_pk img, uid)) (users_like s1)\<rparr>)
            img1))"

text \<open>
  \<^verbatim>\<open>image_like(request)\<close>, under \<^verbatim>\<open>@login_required\<close> (outermost) and \<^verbatim>\<open>@require_POST\<close>.
  \<open>py_int\<close> is the conversion Django applies to the value of the \<^verbatim>\<open>id\<close> lookup
  (\<open>None\<close> where it raises \<^verbatim>\<open>ValueError\<close>, which the \<^verbatim>\<open>except Image.DoesNotExist\<close> does
  not catch). \<open>now\<close> and \<open>save_now\<close> are the clock readings of \<^verbatim>\<open>create_action\<close>.
\<close>

definition image_like ::
  "(string \<Rightarrow> int option) \<Rightarrow> (string \<Rightarrow> string) \<Rightarrow> int \<Rightarrow> int \<Rightarrow> db \<Rightarrow> request \<Rightarrow>
     (error + response) \<times> db" where
  "image_like py_int slugify now save_now s req =
     (case req_user req of
        None \<Rightarrow> (Inr RedirectToLogin, s)
      | Some user \<Rightarrow>
          if req_method req \<noteq> ''POST'' then (Inr NotAllowed, s)
          else
            (case (POST req ''id'', POST req ''action'') of
               (Some image_id, Some action) \<Rightarrow>
                 if image_id \<noteq> [] \<and> action \<noteq> [] then
                   (case py_int image_id of
                      None \<Rightarrow> (Inl ValueError, s)
                    | Some k \<Rightarrow>
                        (case find (\<lambda>img. image_pk img = k) (images s) of
                           None \<Rightarrow> (Inr (JsonResponse ''error''), s)
                         | Some img \<Rightarrow>
                             if action = ''like'' then
                               (Inr (JsonResponse ''ok''),
                                snd (create_action now save_now
                                  (users_like_add slugify s img (user_pk user))
                                  (user_pk user) ''likes'' (Some (ImageModel, image_pk img))))
                             else
                               (Inr (JsonResponse ''ok''),
                                users_like_remove slugify s img (user_pk user))))
                 else (Inr (JsonResponse ''error''), s)
             | _ \<Rightarrow> (Inr (JsonResponse ''error''), s)))"

section \<open>Account views (\<^verbatim>\<open>account/views.py\<close>)\<close>

text \<open>
  \<^verbatim>\<open>dashboard(request)\<close>: the actions of other users, restricted to the followed users
  when \<^verbatim>\<open>request.user.following\<close> is not empty, in the model's \<^verbatim>\<open>ordering = ['-created']\<close>,
  the first ten. \<^verbatim>\<open>request.user.following\<close> are the users at the \<^verbatim>\<open>user_to\<close> end of the
  \<^verbatim>\<open>Contact\<close> rows whose \<^verbatim>\<open>user_from\<close> is the requesting user. \<open>order_by\<close> is the order in
  which the database returns the rows of the query: \<^verbatim>\<open>ORDER BY created DESC\<close> leaves rows
  of equal timestamp in an order of the database's choosing.
\<close>

definition following_ids :: "db \<Rightarrow> int \<Rightarrow> int list" where
  "following_ids s uid = map user_to (filter (\<lambda>c. user_from c = uid) (contacts s))"

definition dashboard :: "(Action list \<Rightarrow> Action list) \<Rightarrow> db \<Rightarrow> request \<Rightarrow> response" where
  "dashboard order_by s req =
     (case req_user req of
        None \<Rightarrow> RedirectToLogin
      | Some user \<Rightarrow>
          (let actions0 = filter (\<lambda>a. user_id a \<noteq> user_pk user) (actions s);
               following = following_ids s (user_pk user);
               actions1 = (if following \<noteq> []
                           then filter (\<lambda>a. user_id a \<in> set following) actions0
                           else actions0)
           in RenderDashboard (take 10 (order_by actions1))))"

text \<open>
  \<^verbatim>\<open>user_follow(request)\<close> and \<^verbatim>\<open>user_unfollow(request)\<close>, under \<^verbatim>\<open>@require_POST\<close>
  (outermost) and \<^verbatim>\<open>@login_required\<close>. Two model instances are equal when their keys
  are. \<^verbatim>\<open>user.followers.add(request.user)\<close> inserts the \<^verbatim>\<open>Contact\<close> from the requesting
  user to \<^verbatim>\<open>user\<close> unless the table has one (\<open>now\<close> is the clock reading of its
  \<^verbatim>\<open>created\<close>); \<^verbatim>\<open>remove\<close> deletes every such row.
\<close>

definition user_follow :: "int \<Rightarrow> db \<Rightarrow> request \<Rightarrow> (error + response) \<times> db" where
  "user_follow now s req =
     (if req_method req \<noteq> ''POST'' then (Inr NotAllowed, s)
      else
        (case req_user req of
           None \<Rightarrow> (Inr RedirectToLogin, s)
         | Some me \<Rightarrow>
             (case POST req ''username'' of
                None \<Rightarrow> (Inr (HttpResponse ''User followed successfully''), s)
              | Some name \<Rightarrow>
                  if name = [] then (Inr (HttpResponse ''User followed successfully''), s)
                  else
                    (case find (\<lambda>u. username u = name) (users s) of
                       None \<Rightarrow> (Inl Http404, s)
                     | Some user \<Rightarrow>
                         if user_pk me \<noteq> user_pk user then
                           (Inr (HttpResponse ''User followed successfully''),
                            s\<lparr>contacts :=
                               (if list_ex (\<lambda>c. user_from c = user_pk me \<and> user_to c = user_pk user)
                                     (contacts s)
                                then contacts s
                                else contacts s @
                                  [\<lparr>user_from = user_pk me, user_to = user_pk user,
                                    contact_created = now\<rparr>])\<rparr>)
                         else (Inr (HttpResponse ''User followed successfully''), s)))))"

definition user_unfollow :: "db \<Rightarrow> request \<Rightarrow> (error + response) \<times> db" where
  "user_unfollow s req =
     (if req_method req \<noteq> ''POST'' then (Inr NotAllowed, s)
      else
        (case req_user req of
           None \<Rightarrow> (Inr RedirectToLogin, s)
         | Some me \<Rightarrow>
             (case POST req ''username'' of
                None \<Rightarrow> (Inr (HttpResponse ''User unfollowed successfully''), s)
              | Some name \<Rightarrow>
                  if name = [] then (Inr (HttpResponse ''User unfollowed successfully''), s)
                  else
                    (case find (\<lambda>u. username u = name) (users s) of
                       None \<Rightarrow> (Inl Http404, s)
                     | Some user \<Rightarrow>
                         if user_pk me \<noteq> user_pk user then
                           (Inr (HttpResponse ''User unfollowed successfully''),
                            s\<lparr>contacts :=
                               filter (\<lambda>c. \<not> (user_from c = user_pk me \<and> user_to c = user_pk user))
                                 (contacts s)\<rparr>)
                         else (Inr (HttpResponse ''User unfollowed successfully''), s)))))"

text \<open>
  The states of the database an application run can reach from a database without
  contacts: \<^verbatim>\<open>user_follow\<close> and \<^verbatim>\<open>user_unfollow\<close> are the only code that writes the
  \<^verbatim>\<open>Contact\<close> table, so every other operation is a step that leaves that table as it is.
\<close>

inductive reachable_db :: "db \<Rightarrow> bool" where
  initial: "contacts s = [] \<Longrightarrow> reachable_db s"
| follow: "reachable_db s \<Longrightarrow> reachable_db (snd (user_follow now s req))"
| unfollow: "reachable_db s \<Longrightarrow> reachable_db (snd (user_unfollow s req))"
| other: "reachable_db s \<Longrightarrow> contacts s' = contacts s \<Longrightarrow> reachable_db s'"

section \<open>Observing the store\<close>

text \<open>
  The value of a counter and the score of a member of the ranking, 0 for one the store
  does not have; and the store after \<open>k\<close> sequential calls of \<^verbatim>\<open>image_detail\<close> for the
  same image.
\<close>

definition counter_value :: "redis \<Rightarrow> string \<Rightarrow> int" where
  "counter_value r key = (case strings r key of None \<Rightarrow> 0 | Some c \<Rightarrow> c)"

definition ranking_score :: "redis \<Rightarrow> string \<Rightarrow> int" where
  "ranking_score r member =
     (case zscore (zsets r ''image_ranking'') member of None \<Rightarrow> 0 | Some sc \<Rightarrow> sc)"

fun image_detail_times :: "nat \<Rightarrow> redis \<Rightarrow> db \<Rightarrow> int \<Rightarrow> string \<Rightarrow> redis" where
  "image_detail_times 0 r s i sl = r"
| "image_detail_times (Suc k) r s i sl =
     image_detail_times k (snd (image_detail r s i sl)) s i sl"

section \<open>A sample database\<close>

text \<open>
  A database used where a property is instantiated at a concrete state: three users, of
  whom ann follows bob, one action of each, and one image.
\<close>

definition sample_image :: Image where
  "sample_image = \<lparr>image_pk = 42, image_user = 1, title = ''Sunset'', slug = ''sunset'',
     image_created = 0, total_likes = 0\<rparr>"

definition sample_actions :: "Action list" where
  "sample_actions =
     [\<lparr>action_pk = 1, user_id = 1, verb = ''has created an account'', created = 10,
       target_ct = None, target_id = None\<rparr>,
      \<lparr>action_pk = 2, user_id = 2, verb = ''likes'', created = 20,
       target_ct = Some ImageModel, target_id = Some 42\<rparr>,
      \<lparr>action_pk = 3, user_id = 3, verb = ''has created an account'', created = 30,
       target_ct = None, target_id = None\<rparr>]"

definition sample_db :: db where
  "sample_db =
     \<lparr>users = [\<lparr>user_pk = 1, username = ''ann''\<rparr>, \<lparr>user_pk = 2, username = ''bob''\<rparr>,
               \<lparr>user_pk = 3, username = ''cat''\<rparr>],
      contacts = [\<lparr>user_from = 1, user_to = 2, contact_created = 5\<rparr>],
      actions = sample_actions,
      action_seq = 3,
      images = [sample_image],
      users_like = []\<rparr>"

text \<open>
  A ranking that still names image 7, which the database no longer has, and a request of a
  logged-in user.
\<close>

definition sample_redis :: redis where
  "sample_redis = empty_redis\<lparr>zsets := (\<lambda>k. [])(''image_ranking'' := [(''42'', 3), (''7'', 5)])\<rparr>"

definition sample_request :: request where
  "sample_request = \<lparr>req_method = ''GET'', req_user = Some \<lparr>user_pk = 1, username = ''ann''\<rparr>,
     POST = (\<lambda>k. None)\<rparr>"

text \<open>A POST request of the logged-in user ann with the given parameters.\<close>

definition sample_post :: "(string \<times> string) list \<Rightarrow> request" where
  "sample_post params = \<lparr>req_method = ''POST'',
     req_user = Some \<lparr>user_pk = 1, username = ''ann''\<rparr>, POST = map_of params\<rparr>"

section \<open>Properties of \<^verbatim>\<open>create_action\<close>\<close>

lemma similar_actions_append:
  "similar_actions (tbl @ tbl') now uid v target =
     similar_actions tbl now uid v target @ similar_actions tbl' now uid v target"
  by (simp add: similar_actions_def Let_def split: option.split)

lemma similar_actions_single:
  "similar_actions [a] now uid v target =
     (if user_id a = uid \<and> verb a = v \<and> now - timedelta_seconds 60 \<le> created a \<and>
         (case target of None \<Rightarrow> True
          | Some (ct, tid) \<Rightarrow> target_ct a = Some ct \<and> target_id a = Some tid)
      then [a] else [])"
  by (auto simp: similar_actions_def Let_def split: option.split)

lemma similar_actions_later:
  assumes "similar_actions tbl now1 uid v target = []" and "now1 \<le> now2"
  shows "similar_actions tbl now2 uid v target = []"
proof -
  have old: "\<And>a. a \<in> set tbl \<Longrightarrow> now2 - timedelta_seconds 60 \<le> created a \<Longrightarrow>
      now1 - timedelta_seconds 60 \<le> created a"
    using assms(2) by simp
  show ?thesis
  proof (cases target)
    case None
    with assms(1) old show ?thesis
      by (auto simp: similar_actions_def Let_def filter_empty_conv)
  next
    case (Some p)
    with assms(1) old show ?thesis
      by (cases p) (auto simp: similar_actions_def Let_def filter_empty_conv)
  qed
qed

text \<open>
  C1. From a database with no similar action in the last minute, a call of
  \<^verbatim>\<open>create_action\<close> returns true and inserts one row; a second call for the same user,
  verb and target made within 60 seconds of that row's timestamp (the bound included)
  returns false and leaves the database as the first call left it, so exactly one row has
  been stored.
\<close>

theorem create_action_twice_within_window:
  assumes "similar_actions (actions s) now1 uid v target = []"
    and "now2 \<le> saved1 + timedelta_seconds 60"
  shows "fst (create_action now1 saved1 s uid v target) \<and>
         \<not> fst (create_action now2 saved2 (snd (create_action now1 saved1 s uid v target))
                 uid v target) \<and>
         snd (create_action now2 saved2 (snd (create_action now1 saved1 s uid v target))
                 uid v target) = snd (create_action now1 saved1 s uid v target) \<and>
         length (actions (snd (create_action now1 saved1 s uid v target))) =
           Suc (length (actions s))"
proof -
  let ?s1 = "snd (create_action now1 saved1 s uid v target)"
  have first: "fst (create_action now1 saved1 s uid v target)"
    using assms(1) by (simp add: create_action_def)
  have rows: "actions ?s1 = actions s @
      [\<lparr>action_pk = action_seq s + 1, user_id = uid, verb = v,
        created = saved1, target_ct = map_option fst target,
        target_id = map_option snd target\<rparr>]"
    using assms(1) by (simp add: create_action_def)
  have "similar_actions
      [\<lparr>action_pk = action_seq s + 1, user_id = uid, verb = v,
        created = saved1, target_ct = map_option fst target,
        target_id = map_option snd target\<rparr>] now2 uid v target \<noteq> []"
    using assms(2) by (cases target) (auto simp: similar_actions_single)
  then have found: "similar_actions (actions ?s1) now2 uid v target \<noteq> []"
    by (simp add: rows similar_actions_append)
  then have second: "create_action now2 saved2 ?s1 uid v target = (False, ?s1)"
    by (simp add: create_action_def)
  from first second rows show ?thesis by simp
qed

theorem create_action_twice_within_window_witness:
  "similar_actions (actions empty_db) 0 1 ''likes'' (Some (ImageModel, 7)) = [] \<and>
   (timedelta_seconds 30 \<le> 0 + timedelta_seconds 60) \<and>
   fst (create_action 0 0 empty_db 1 ''likes'' (Some (ImageModel, 7))) \<and>
   \<not> fst (create_action (timedelta_seconds 30) (timedelta_seconds 30)
           (snd (create_action 0 0 empty_db 1 ''likes'' (Some (ImageModel, 7))))
           1 ''likes'' (Some (ImageModel, 7))) \<and>
   length (actions (snd (create_action 0 0 empty_db 1 ''likes'' (Some (ImageModel, 7))))) = 1"
proof -
  have fresh: "similar_actions (actions empty_db) 0 1 ''likes'' (Some (ImageModel, 7)) = []"
    by (simp add: similar_actions_def empty_db_def)
  have within: "timedelta_seconds 30 \<le> 0 + timedelta_seconds 60"
    by (simp add: timedelta_seconds_def)
  have "length (actions empty_db) = 0"
    by (simp add: empty_db_def)
  with create_action_twice_within_window [OF fresh within, of "timedelta_seconds 30"]
    fresh within
  show ?thesis by simp
qed

lemma create_action_fresh:
  assumes "similar_actions (actions s) now uid v target = []"
  shows "create_action now save_now s uid v target =
     (True,
      s\<lparr>actions := actions s @
         [\<lparr>action_pk = action_seq s + 1, user_id = uid, verb = v,
           created = save_now, target_ct = map_option fst target,
           target_id = map_option snd target\<rparr>],
        action_seq := action_seq s + 1\<rparr>)"
  using assms by (simp add: create_action_def)

lemma similar_actions_other_key:
  assumes "v1 \<noteq> v2 \<or> (t2 \<noteq> None \<and> t1 \<noteq> t2)"
  shows "similar_actions
     [\<lparr>action_pk = k, user_id = uid, verb = v1, created = c,
       target_ct = map_option fst t1, target_id = map_option snd t1\<rparr>] now uid v2 t2 = []"
proof (cases t2)
  case None
  with assms show ?thesis by (simp add: similar_actions_single)
next
  case (Some p)
  with assms show ?thesis
    by (cases p; cases t1) (auto simp: similar_actions_single)
qed

text \<open>
  C2, as the code has it. From a database in which neither call finds a similar action,
  two calls of \<^verbatim>\<open>create_action\<close> for the same user that differ in the verb, or that differ
  in the target while the second call names a target, both return true and both insert a
  row, however close in time they are.
\<close>

theorem create_action_different_key:
  assumes "similar_actions (actions s) now1 uid v1 t1 = []"
    and "similar_actions (actions s) now2 uid v2 t2 = []"
    and "v1 \<noteq> v2 \<or> (t2 \<noteq> None \<and> t1 \<noteq> t2)"
  shows "fst (create_action now1 saved1 s uid v1 t1) \<and>
         fst (create_action now2 saved2 (snd (create_action now1 saved1 s uid v1 t1))
               uid v2 t2) \<and>
         length (actions (snd (create_action now2 saved2
               (snd (create_action now1 saved1 s uid v1 t1)) uid v2 t2))) =
           length (actions s) + 2"
proof -
  let ?a = "\<lparr>action_pk = action_seq s + 1, user_id = uid, verb = v1,
      created = saved1, target_ct = map_option fst t1, target_id = map_option snd t1\<rparr>"
  let ?s1 = "s\<lparr>actions := actions s @ [?a], action_seq := action_seq s + 1\<rparr>"
  have first: "create_action now1 saved1 s uid v1 t1 = (True, ?s1)"
    by (rule create_action_fresh [OF assms(1)])
  have "similar_actions (actions ?s1) now2 uid v2 t2 = []"
    using assms(2) similar_actions_other_key [OF assms(3)]
    by (simp add: similar_actions_append)
  then have second: "create_action now2 saved2 ?s1 uid v2 t2 =
      (True, ?s1\<lparr>actions := actions ?s1 @
         [\<lparr>action_pk = action_seq ?s1 + 1, user_id = uid, verb = v2,
           created = saved2, target_ct = map_option fst t2,
           target_id = map_option snd t2\<rparr>],
        action_seq := action_seq ?s1 + 1\<rparr>)"
    by (rule create_action_fresh)
  show ?thesis
    unfolding first snd_conv fst_conv second by simp
qed

theorem create_action_different_key_witness:
  "fst (create_action 0 0 empty_db 1 ''likes'' (Some (ImageModel, 7))) \<and>
   fst (create_action (timedelta_seconds 30) (timedelta_seconds 30)
         (snd (create_action 0 0 empty_db 1 ''likes'' (Some (ImageModel, 7))))
         1 ''likes'' (Some (ImageModel, 8))) \<and>
   length (actions (snd (create_action (timedelta_seconds 30) (timedelta_seconds 30)
         (snd (create_action 0 0 empty_db 1 ''likes'' (Some (ImageModel, 7))))
         1 ''likes'' (Some (ImageModel, 8))))) = 2"
proof -
  have f1: "similar_actions (actions empty_db) 0 1 ''likes'' (Some (ImageModel, 7)) = []"
    by (simp add: similar_actions_def empty_db_def)
  have f2: "similar_actions (actions empty_db) (timedelta_seconds 30) 1 ''likes''
      (Some (ImageModel, 8)) = []"
    by (simp add: similar_actions_def empty_db_def)
  have d: "''likes'' \<noteq> ''likes'' \<or>
      (Some (ImageModel, 8::int) \<noteq> None \<and> Some (ImageModel, 7) \<noteq> Some (ImageModel, 8::int))"
    by simp
  have "length (actions empty_db) = 0"
    by (simp add: empty_db_def)
  with create_action_different_key [OF f1 f2 d, of 0 "timedelta_seconds 30"]
  show ?thesis by simp
qed

text \<open>
  C2 as stated fails: a call that names no target is not filtered by target, so a row of
  the same user and verb with a target, inserted 30 seconds before, suppresses it.
\<close>

theorem create_action_different_key_counterexample:
  "fst (create_action 0 0 empty_db 1 ''likes'' (Some (ImageModel, 7))) \<and>
   \<not> fst (create_action (timedelta_seconds 30) (timedelta_seconds 30)
         (snd (create_action 0 0 empty_db 1 ''likes'' (Some (ImageModel, 7))))
         1 ''likes'' None)"
  by (simp add: create_action_def similar_actions_def empty_db_def timedelta_seconds_def)

text \<open>
  A row whose timestamp is strictly older than \<^verbatim>\<open>now - 60s\<close> is never in the query, so
  a table of such rows does not suppress an insertion.
\<close>

lemma similar_actions_old:
  assumes "\<And>a. a \<in> set tbl \<Longrightarrow> created a < now - timedelta_seconds 60"
  shows "similar_actions tbl now uid v target = []"
proof -
  have "filter (\<lambda>a. user_id a = uid \<and> verb a = v \<and> now - timedelta_seconds 60 \<le> created a)
      tbl = []"
    using assms by (fastforce simp: filter_empty_conv)
  then show ?thesis
    by (simp add: similar_actions_def Let_def split: option.split)
qed

text \<open>
  C3, as the code has it. From a database with no similar action in the last minute, a
  call of \<^verbatim>\<open>create_action\<close> followed by a later call for the same user, verb and target
  made strictly more than 60 seconds after the timestamp of the inserted row returns true
  both times and stores two rows.
\<close>

theorem create_action_after_window:
  assumes "similar_actions (actions s) now1 uid v target = []"
    and "now1 \<le> now2"
    and "saved1 + timedelta_seconds 60 < now2"
  shows "fst (create_action now1 saved1 s uid v target) \<and>
         fst (create_action now2 saved2 (snd (create_action now1 saved1 s uid v target))
               uid v target) \<and>
         length (actions (snd (create_action now2 saved2
               (snd (create_action now1 saved1 s uid v target)) uid v target))) =
           length (actions s) + 2"
proof -
  let ?a = "\<lparr>action_pk = action_seq s + 1, user_id = uid, verb = v,
      created = saved1, target_ct = map_option fst target,
      target_id = map_option snd target\<rparr>"
  let ?s1 = "s\<lparr>actions := actions s @ [?a], action_seq := action_seq s + 1\<rparr>"
  have first: "create_action now1 saved1 s uid v target = (True, ?s1)"
    by (rule create_action_fresh [OF assms(1)])
  have old: "similar_actions [?a] now2 uid v target = []"
    using assms(3) by (intro similar_actions_old) simp
  have "similar_actions (actions ?s1) now2 uid v target = []"
    using similar_actions_later [OF assms(1,2)] old
    by (simp add: similar_actions_append)
  then have second: "create_action now2 saved2 ?s1 uid v target =
      (True, ?s1\<lparr>actions := actions ?s1 @
         [\<lparr>action_pk = action_seq ?s1 + 1, user_id = uid, verb = v,
           created = saved2, target_ct = map_option fst target,
           target_id = map_option snd target\<rparr>],
        action_seq := action_seq ?s1 + 1\<rparr>)"
    by (rule create_action_fresh)
  show ?thesis
    unfolding first snd_conv fst_conv second by simp
qed

theorem create_action_after_window_witness:
  "fst (create_action 0 0 empty_db 1 ''bookmarked image'' (Some (ImageModel, 7))) \<and>
   fst (create_action (timedelta_seconds 61) (timedelta_seconds 61)
         (snd (create_action 0 0 empty_db 1 ''bookmarked image'' (Some (ImageModel, 7))))
         1 ''bookmarked image'' (Some (ImageModel, 7))) \<and>
   length (actions (snd (create_action (timedelta_seconds 61) (timedelta_seconds 61)
         (snd (create_action 0 0 empty_db 1 ''bookmarked image'' (Some (ImageModel, 7))))
         1 ''bookmarked image'' (Some (ImageModel, 7))))) = 2"
proof -
  have f1: "similar_actions (actions empty_db) 0 1 ''bookmarked image''
      (Some (ImageModel, 7)) = []"
    by (simp add: similar_actions_def empty_db_def)
  have le: "(0::int) \<le> timedelta_seconds 61"
    by (simp add: timedelta_seconds_def)
  have lt: "0 + timedelta_seconds 60 < timedelta_seconds 61"
    by (simp add: timedelta_seconds_def)
  have "length (actions empty_db) = 0"
    by (simp add: empty_db_def)
  with create_action_after_window [OF f1 le lt, of "timedelta_seconds 61"]
  show ?thesis by simp
qed

text \<open>
  C3 as stated fails at the bound: exactly 60 seconds after the timestamp of the first
  row that row is still in the query (\<^verbatim>\<open>created__gte\<close>), and the second call returns
  false.
\<close>

theorem create_action_after_window_counterexample:
  "fst (create_action 0 0 empty_db 1 ''likes'' None) \<and>
   (0::int) + timedelta_seconds 60 \<le> timedelta_seconds 60 \<and>
   \<not> fst (create_action (timedelta_seconds 60) (timedelta_seconds 60)
         (snd (create_action 0 0 empty_db 1 ''likes'' None)) 1 ''likes'' None)"
  by (simp add: create_action_def similar_actions_def empty_db_def timedelta_seconds_def)

section \<open>Properties of the view counter and the ranking\<close>

lemma zscore_zadd_incr:
  "zscore (zadd_incr zs a m) m = Some ((case zscore zs m of None \<Rightarrow> 0 | Some sc \<Rightarrow> sc) + a)"
  by (induction zs) (auto simp: zscore_def)

lemma image_detail_found:
  assumes "find (\<lambda>img. image_pk img = i \<and> slug img = sl) (images s) = Some img"
    and "reachable r"
  shows "image_detail r s i sl =
     (Inr (RenderDetail img (counter_value r (views_key i) + 1)),
      r\<lparr>strings := (strings r)(views_key i := Some (counter_value r (views_key i) + 1)),
        zsets := (zsets r)(''image_ranking'' :=
           zadd_incr (zsets r ''image_ranking'') 1 (str_int i))\<rparr>)"
proof -
  from assms(1) have "image_pk img = i"
    by (auto simp: find_Some_iff)
  with assms show ?thesis
    by (simp add: image_detail_def incr_def zincrby_def counter_value_def Let_def)
qed

lemma image_detail_step:
  assumes "find (\<lambda>img. image_pk img = i \<and> slug img = sl) (images s) = Some img"
    and "reachable r"
  shows "reachable (snd (image_detail r s i sl))"
    and "counter_value (snd (image_detail r s i sl)) (views_key i) =
           counter_value r (views_key i) + 1"
    and "ranking_score (snd (image_detail r s i sl)) (str_int i) =
           ranking_score r (str_int i) + 1"
  unfolding image_detail_found [OF assms]
  using assms(2) by (simp_all add: counter_value_def ranking_score_def zscore_zadd_incr)

lemma image_detail_times_effect:
  assumes "find (\<lambda>img. image_pk img = i \<and> slug img = sl) (images s) = Some img"
    and "reachable r"
  shows "reachable (image_detail_times k r s i sl) \<and>
         counter_value (image_detail_times k r s i sl) (views_key i) =
           counter_value r (views_key i) + int k \<and>
         ranking_score (image_detail_times k r s i sl) (str_int i) =
           ranking_score r (str_int i) + int k"
  using assms(2)
proof (induction k arbitrary: r)
  case 0
  then show ?case by simp
next
  case (Suc k)
  from Suc.IH [OF image_detail_step(1) [OF assms(1) Suc.prems]]
    image_detail_step(2,3) [OF assms(1) Suc.prems]
  show ?case by simp
qed

lemma str_nat_nonempty: "str_nat n \<noteq> []"
  by (subst str_nat.simps) simp

lemma digit_mem: "d < 10 \<Longrightarrow> ''0123456789'' ! d \<in> set ''0123456789''"
  by (rule nth_mem) simp

lemma digit_inj:
  assumes "a < 10" and "b < 10" and "''0123456789'' ! a = ''0123456789'' ! b"
  shows "a = b"
proof -
  have d: "distinct ''0123456789''"
    by simp
  have la: "a < length ''0123456789''" and lb: "b < length ''0123456789''"
    using assms(1,2) by simp_all
  from assms(3) show ?thesis
    unfolding nth_eq_iff_index_eq [OF d la lb] .
qed


lemma singleton_subset: "x \<in> A \<Longrightarrow> S = {x} \<Longrightarrow> S \<subseteq> A"
  by simp

lemma snoc_subset: "T \<subseteq> A \<Longrightarrow> x \<in> A \<Longrightarrow> S = T \<union> {x} \<Longrightarrow> S \<subseteq> A"
  by simp

lemma not_in_subset: "S \<subseteq> A \<Longrightarrow> x \<notin> A \<Longrightarrow> x \<notin> S"
  by auto

lemma str_nat_digits: "set (str_nat n) \<subseteq> set ''0123456789''"
proof (induction n rule: str_nat.induct)
  case (1 n)
  show ?case
  proof (cases "n < 10")
    case True
    have "str_nat n = [''0123456789'' ! n]"
      using True by (subst str_nat.simps) (simp only: if_True)
    then have "set (str_nat n) = {''0123456789'' ! n}"
      by (simp only: list.set)
    with digit_mem [OF True] show ?thesis
      by (rule singleton_subset)
  next
    case False
    have "str_nat n = str_nat (n div 10) @ [''0123456789'' ! (n mod 10)]"
      using False by (subst str_nat.simps) (simp only: if_False)
    then have eq: "set (str_nat n) = set (str_nat (n div 10)) \<union> {''0123456789'' ! (n mod 10)}"
      by (simp only: set_append list.set)
    have "n mod 10 < 10"
      by simp
    then have "''0123456789'' ! (n mod 10) \<in> set ''0123456789''"
      by (rule digit_mem)
    with "1.IH" [OF False] show ?thesis
      using eq by (rule snoc_subset)
  qed
qed

lemma minus_no_digit: "CHR ''-'' \<notin> set ''0123456789''"
  by simp

lemma str_nat_no_minus: "CHR ''-'' \<notin> set (str_nat n)"
  using str_nat_digits minus_no_digit by (rule not_in_subset)


lemma str_nat_small: "n < 10 \<Longrightarrow> str_nat n = [''0123456789'' ! n]"
  by (subst str_nat.simps) (simp only: if_True)

lemma str_nat_big:
  "\<not> n < 10 \<Longrightarrow> str_nat n = str_nat (n div 10) @ [''0123456789'' ! (n mod 10)]"
  by (subst str_nat.simps) (simp only: if_False)

lemma str_nat_inj: "str_nat m = str_nat n \<Longrightarrow> m = n"
proof (induction m arbitrary: n rule: str_nat.induct)
  case (1 m)
  consider (small) "m < 10" "n < 10" | (left) "m < 10" "\<not> n < 10"
    | (right) "\<not> m < 10" "n < 10" | (big) "\<not> m < 10" "\<not> n < 10"
    by blast
  then show ?case
  proof cases
    case small
    from "1.prems" have "[''0123456789'' ! m] = [''0123456789'' ! n]"
      by (simp only: str_nat_small [OF small(1)] str_nat_small [OF small(2)])
    then have "''0123456789'' ! m = ''0123456789'' ! n"
      by (simp only: list.inject)
    with small show ?thesis by (rule digit_inj)
  next
    case left
    from "1.prems" have "[''0123456789'' ! m] =
        str_nat (n div 10) @ [''0123456789'' ! (n mod 10)]"
      by (simp only: str_nat_small [OF left(1)] str_nat_big [OF left(2)])
    then have "[] @ [''0123456789'' ! m] =
        str_nat (n div 10) @ [''0123456789'' ! (n mod 10)]"
      by (simp only: append_Nil)
    then have "[] = str_nat (n div 10)"
      by (simp only: append1_eq_conv)
    with str_nat_nonempty [of "n div 10"] show ?thesis
      by (simp only: simp_thms)
  next
    case right
    from "1.prems" have "str_nat (m div 10) @ [''0123456789'' ! (m mod 10)] =
        [''0123456789'' ! n]"
      by (simp only: str_nat_small [OF right(2)] str_nat_big [OF right(1)])
    then have "str_nat (m div 10) @ [''0123456789'' ! (m mod 10)] =
        [] @ [''0123456789'' ! n]"
      by (simp only: append_Nil)
    then have "str_nat (m div 10) = []"
      by (simp only: append1_eq_conv)
    with str_nat_nonempty [of "m div 10"] show ?thesis
      by (simp only: simp_thms)
  next
    case big
    from "1.prems" have "str_nat (m div 10) @ [''0123456789'' ! (m mod 10)] =
        str_nat (n div 10) @ [''0123456789'' ! (n mod 10)]"
      by (simp only: str_nat_big [OF big(1)] str_nat_big [OF big(2)])
    then have pre: "str_nat (m div 10) = str_nat (n div 10)"
      and last: "''0123456789'' ! (m mod 10) = ''0123456789'' ! (n mod 10)"
      by (simp_all only: append1_eq_conv)
    from "1.IH" [OF big(1) pre] have d: "m div 10 = n div 10" .
    have "m mod 10 < 10" and "n mod 10 < 10"
      by simp_all
    then have r: "m mod 10 = n mod 10"
      using last by (rule digit_inj)
    have "m = m div 10 * 10 + m mod 10"
      by simp
    also have "\<dots> = n div 10 * 10 + n mod 10"
      by (simp only: d r)
    also have "\<dots> = n"
      by simp
    finally show ?thesis .
  qed
qed


lemma str_int_neg: "i < 0 \<Longrightarrow> str_int i = CHR ''-'' # str_nat (nat (- i))"
  by (simp only: str_int_def if_True)

lemma str_int_pos: "\<not> i < 0 \<Longrightarrow> str_int i = str_nat (nat i)"
  by (simp only: str_int_def if_False)

lemma hd_in_set: "xs = x # ys \<Longrightarrow> x \<in> set xs"
  by simp

lemma str_int_inj: "str_int i = str_int j \<Longrightarrow> i = j"
proof -
  assume eq: "str_int i = str_int j"
  consider (neg) "i < 0" "j < 0" | (pos) "\<not> i < 0" "\<not> j < 0"
    | (np) "i < 0" "\<not> j < 0" | (pn) "\<not> i < 0" "j < 0"
    by blast
  then show ?thesis
  proof cases
    case neg
    from eq have "CHR ''-'' # str_nat (nat (- i)) = CHR ''-'' # str_nat (nat (- j))"
      by (simp only: str_int_neg [OF neg(1)] str_int_neg [OF neg(2)])
    then have "str_nat (nat (- i)) = str_nat (nat (- j))"
      by (simp only: list.inject simp_thms)
    then have "nat (- i) = nat (- j)" by (rule str_nat_inj)
    with neg show ?thesis by simp
  next
    case pos
    from eq have "str_nat (nat i) = str_nat (nat j)"
      by (simp only: str_int_pos [OF pos(1)] str_int_pos [OF pos(2)])
    then have "nat i = nat j" by (rule str_nat_inj)
    with pos show ?thesis by simp
  next
    case np
    from eq have "str_nat (nat j) = CHR ''-'' # str_nat (nat (- i))"
      by (simp only: str_int_neg [OF np(1)] str_int_pos [OF np(2)])
    then have "CHR ''-'' \<in> set (str_nat (nat j))"
      by (rule hd_in_set)
    with str_nat_no_minus [of "nat j"] show ?thesis
      by (simp only: simp_thms)
  next
    case pn
    from eq have "str_nat (nat i) = CHR ''-'' # str_nat (nat (- j))"
      by (simp only: str_int_neg [OF pn(2)] str_int_pos [OF pn(1)])
    then have "CHR ''-'' \<in> set (str_nat (nat i))"
      by (rule hd_in_set)
    with str_nat_no_minus [of "nat i"] show ?thesis
      by (simp only: simp_thms)
  qed
qed

lemma views_key_inj:
  "''image:'' @ str_int i @ '':views'' = ''image:'' @ str_int j @ '':views'' \<Longrightarrow> i = j"
proof -
  assume "''image:'' @ str_int i @ '':views'' = ''image:'' @ str_int j @ '':views''"
  then have "str_int i @ '':views'' = str_int j @ '':views''"
    by (simp only: same_append_eq)
  then have "str_int i = str_int j"
    by (simp only: append_same_eq)
  then show ?thesis by (rule str_int_inj)
qed

lemma views_key_literal: "views_key i = ''image:'' @ str_int i @ '':views''"
  by (simp only: views_key_def)


lemma str_int_42: "str_int 42 = ''42''"
proof -
  have "str_nat 4 = ''4''"
    by (simp add: str_nat_small)
  moreover have "str_nat 42 = str_nat 4 @ ''2''"
    by (simp add: str_nat_big)
  ultimately have "str_nat 42 = ''42''"
    by simp
  then show ?thesis
    by (simp add: str_int_pos)
qed

lemma str_int_7: "str_int 7 = ''7''"
proof -
  have "str_nat 7 = ''7''"
    by (simp add: str_nat_small)
  then show ?thesis
    by (simp add: str_int_pos)
qed


lemma zscore_zadd_incr_other:
  "m' \<noteq> m \<Longrightarrow> zscore (zadd_incr zs a m) m' = zscore zs m'"
  by (induction zs) (auto simp: zscore_def)

lemma image_detail_frame:
  assumes "find (\<lambda>img. image_pk img = i \<and> slug img = sl) (images s) = Some img"
    and "reachable r"
  shows "key \<noteq> views_key i \<Longrightarrow> strings (snd (image_detail r s i sl)) key = strings r key"
    and "member \<noteq> str_int i \<Longrightarrow>
           ranking_score (snd (image_detail r s i sl)) member = ranking_score r member"
    and "zkey \<noteq> ''image_ranking'' \<Longrightarrow> zsets (snd (image_detail r s i sl)) zkey = zsets r zkey"
  unfolding image_detail_found [OF assms]
  by (simp_all add: ranking_score_def zscore_zadd_incr_other)

lemma image_detail_times_frame:
  assumes "find (\<lambda>img. image_pk img = i \<and> slug img = sl) (images s) = Some img"
    and "reachable r"
  shows "(key \<noteq> views_key i \<longrightarrow> strings (image_detail_times k r s i sl) key = strings r key) \<and>
         (member \<noteq> str_int i \<longrightarrow>
            ranking_score (image_detail_times k r s i sl) member = ranking_score r member) \<and>
         (zkey \<noteq> ''image_ranking'' \<longrightarrow> zsets (image_detail_times k r s i sl) zkey = zsets r zkey)"
  using assms(2)
proof (induction k arbitrary: r)
  case 0
  then show ?case by simp
next
  case (Suc k)
  from Suc.IH [OF image_detail_step(1) [OF assms(1) Suc.prems]]
    image_detail_frame(1) [OF assms(1) Suc.prems, where key = key]
    image_detail_frame(2) [OF assms(1) Suc.prems, where member = member]
    image_detail_frame(3) [OF assms(1) Suc.prems, where zkey = zkey]
  show ?case by simp
qed

lemma empty_redis_fresh:
  "counter_value empty_redis key = 0" "ranking_score empty_redis member = 0"
  by (simp_all add: counter_value_def ranking_score_def empty_redis_def zscore_def)

text \<open>
  C4. For an image that exists, a call of \<^verbatim>\<open>image_detail\<close> adds 1 to the counter under
  the key \<^verbatim>\<open>image:<id>:views\<close> and to the score of the member \<^verbatim>\<open><id>\<close> of
  \<^verbatim>\<open>image_ranking\<close>, \<^verbatim>\<open><id>\<close> being the decimal text of the image's id, and returns the
  new counter value: after \<open>k\<close> sequential calls the next call returns the initial counter
  value plus \<open>k + 1\<close> and leaves counter and score \<open>k + 1\<close> above their initial values.
  The counter and the score of every other image, every other string key and every other
  sorted set are as they were. From a store that has neither the counter nor the member,
  \<open>k\<close> calls therefore return \<open>k\<close> and leave the score \<open>k\<close>.
\<close>

theorem image_detail_counts_views:
  assumes "find (\<lambda>img. image_pk img = i \<and> slug img = sl) (images s) = Some img"
    and "reachable r"
  shows "fst (image_detail (image_detail_times k r s i sl) s i sl) =
           Inr (RenderDetail img
             (counter_value r (''image:'' @ str_int i @ '':views'') + int k + 1)) \<and>
         counter_value (image_detail_times (Suc k) r s i sl) (''image:'' @ str_int i @ '':views'') =
           counter_value r (''image:'' @ str_int i @ '':views'') + int k + 1 \<and>
         ranking_score (image_detail_times (Suc k) r s i sl) (str_int i) =
           ranking_score r (str_int i) + int k + 1 \<and>
         (\<forall>j. j \<noteq> i \<longrightarrow>
            counter_value (image_detail_times (Suc k) r s i sl)
                (''image:'' @ str_int j @ '':views'') =
              counter_value r (''image:'' @ str_int j @ '':views'') \<and>
            ranking_score (image_detail_times (Suc k) r s i sl) (str_int j) =
              ranking_score r (str_int j)) \<and>
         (\<forall>key. key \<noteq> ''image:'' @ str_int i @ '':views'' \<longrightarrow>
            strings (image_detail_times (Suc k) r s i sl) key = strings r key) \<and>
         (\<forall>zkey. zkey \<noteq> ''image_ranking'' \<longrightarrow>
            zsets (image_detail_times (Suc k) r s i sl) zkey = zsets r zkey)"
proof -
  let ?rk = "image_detail_times k r s i sl"
  let ?r' = "image_detail_times (Suc k) r s i sl"
  have key: "views_key i = ''image:'' @ str_int i @ '':views''"
    by (rule views_key_literal)
  have k: "reachable ?rk"
    "counter_value ?rk (views_key i) = counter_value r (views_key i) + int k"
    using image_detail_times_effect [OF assms, of k] by simp_all
  have "fst (image_detail ?rk s i sl) =
      Inr (RenderDetail img (counter_value ?rk (views_key i) + 1))"
    by (simp add: image_detail_found [OF assms(1) k(1)])
  with k(2) have ret: "fst (image_detail ?rk s i sl) =
      Inr (RenderDetail img (counter_value r (views_key i) + int k + 1))"
    by simp
  have own: "counter_value ?r' (views_key i) = counter_value r (views_key i) + int k + 1"
    "ranking_score ?r' (str_int i) = ranking_score r (str_int i) + int k + 1"
    using image_detail_times_effect [OF assms, of "Suc k"] by simp_all
  have frame_key: "strings ?r' key = strings r key" if "key \<noteq> views_key i" for key
    using image_detail_times_frame [OF assms, where key = key and k = "Suc k"] that by blast
  have frame_member: "ranking_score ?r' member = ranking_score r member"
    if "member \<noteq> str_int i" for member
    using image_detail_times_frame [OF assms, where member = member and k = "Suc k"] that by blast
  have frame_z: "zsets ?r' zkey = zsets r zkey" if "zkey \<noteq> ''image_ranking''" for zkey
    using image_detail_times_frame [OF assms, where zkey = zkey and k = "Suc k"] that by blast
  have other: "counter_value ?r' (''image:'' @ str_int j @ '':views'') =
        counter_value r (''image:'' @ str_int j @ '':views'') \<and>
      ranking_score ?r' (str_int j) = ranking_score r (str_int j)" if "j \<noteq> i" for j
  proof -
    from that have "''image:'' @ str_int j @ '':views'' \<noteq> views_key i"
      unfolding key using views_key_inj [of j i] by blast
    then have "strings ?r' (''image:'' @ str_int j @ '':views'') =
        strings r (''image:'' @ str_int j @ '':views'')"
      by (rule frame_key)
    then have "counter_value ?r' (''image:'' @ str_int j @ '':views'') =
        counter_value r (''image:'' @ str_int j @ '':views'')"
      by (simp only: counter_value_def)
    moreover from that have "str_int j \<noteq> str_int i"
      using str_int_inj [of j i] by blast
    then have "ranking_score ?r' (str_int j) = ranking_score r (str_int j)"
      by (rule frame_member)
    ultimately show ?thesis by (rule conjI)
  qed
  from ret own other frame_key frame_z show ?thesis
    unfolding key by (intro conjI allI impI) (assumption | rule other [THEN conjunct1] other [THEN conjunct2] frame_key [unfolded key] frame_z)+
qed

theorem image_detail_counts_views_witness:
  "fst (image_detail (image_detail_times 4 empty_redis sample_db 42 ''sunset'')
         sample_db 42 ''sunset'') = Inr (RenderDetail sample_image 5) \<and>
   counter_value (image_detail_times (Suc 4) empty_redis sample_db 42 ''sunset'')
         ''image:42:views'' = 5 \<and>
   ranking_score (image_detail_times (Suc 4) empty_redis sample_db 42 ''sunset'') ''42'' = 5 \<and>
   counter_value (image_detail_times (Suc 4) empty_redis sample_db 42 ''sunset'')
         ''image:7:views'' = 0 \<and>
   ranking_score (image_detail_times (Suc 4) empty_redis sample_db 42 ''sunset'') ''7'' = 0"
proof -
  let ?r' = "image_detail_times (Suc 4) empty_redis sample_db 42 ''sunset''"
  have found: "find (\<lambda>img. image_pk img = 42 \<and> slug img = ''sunset'') (images sample_db) =
      Some sample_image"
    by (simp add: sample_db_def sample_image_def)
  have up: "reachable empty_redis"
    by (simp add: empty_redis_def)
  note inst = image_detail_counts_views [OF found up, of 4]
  have k42: "''image:'' @ str_int 42 @ '':views'' = ''image:42:views''"
    by (simp add: str_int_42)
  have k7: "''image:'' @ str_int 7 @ '':views'' = ''image:7:views''"
    by (simp add: str_int_7)
  from inst have ret: "fst (image_detail (image_detail_times 4 empty_redis sample_db 42 ''sunset'')
         sample_db 42 ''sunset'') = Inr (RenderDetail sample_image 5)"
    by (simp add: empty_redis_fresh)
  from inst have own: "counter_value ?r' (''image:'' @ str_int 42 @ '':views'') = 5"
    "ranking_score ?r' (str_int 42) = 5"
    by (simp_all add: empty_redis_fresh)
  from inst have "(7::int) \<noteq> 42 \<longrightarrow>
      counter_value ?r' (''image:'' @ str_int 7 @ '':views'') =
        counter_value empty_redis (''image:'' @ str_int 7 @ '':views'') \<and>
      ranking_score ?r' (str_int 7) = ranking_score empty_redis (str_int 7)"
    by blast
  then have other: "counter_value ?r' (''image:'' @ str_int 7 @ '':views'') = 0"
    "ranking_score ?r' (str_int 7) = 0"
    by (simp_all add: empty_redis_fresh)
  from ret own other show ?thesis
    unfolding k42 k7 str_int_42 str_int_7 by simp
qed

lemma zrange_desc_unreachable: "\<not> reachable r \<Longrightarrow> zrange_desc r key = Inl ConnectionError"
  by (simp add: zrange_desc_def)

text \<open>
  C7. When the store is unreachable, \<^verbatim>\<open>image_detail\<close> (for an image that exists) and
  \<^verbatim>\<open>image_ranking\<close> (for a logged-in user) end with the store's \<^verbatim>\<open>ConnectionError\<close>:
  neither returns a page with a zero count or an empty ranking.
\<close>

theorem store_unreachable_propagates:
  assumes "\<not> reachable r"
  shows "(find (\<lambda>img. image_pk img = i \<and> slug img = sl) (images s) = Some img \<longrightarrow>
            image_detail r s i sl = (Inl ConnectionError, r)) \<and>
         (req_user req = Some u \<longrightarrow> image_ranking py_int r s req = Inl ConnectionError)"
  using assms
  by (simp add: image_detail_def incr_def image_ranking_def zrange_desc_unreachable)

theorem store_unreachable_propagates_witness:
  "image_detail (empty_redis\<lparr>reachable := False\<rparr>) sample_db 42 ''sunset'' =
     (Inl ConnectionError, empty_redis\<lparr>reachable := False\<rparr>) \<and>
   image_ranking (\<lambda>m. None) (empty_redis\<lparr>reachable := False\<rparr>) sample_db
     \<lparr>req_method = ''GET'', req_user = Some \<lparr>user_pk = 1, username = ''ann''\<rparr>,
      POST = (\<lambda>k. None)\<rparr> = Inl ConnectionError"
proof -
  have down: "\<not> reachable (empty_redis\<lparr>reachable := False\<rparr>)"
    by simp
  have found: "find (\<lambda>img. image_pk img = 42 \<and> slug img = ''sunset'') (images sample_db) =
      Some sample_image"
    by (simp add: sample_db_def sample_image_def)
  have user: "req_user \<lparr>req_method = ''GET'', req_user = Some \<lparr>user_pk = 1, username = ''ann''\<rparr>,
      POST = (\<lambda>k. None)\<rparr> = Some \<lparr>user_pk = 1, username = ''ann''\<rparr>"
    by simp
  from store_unreachable_propagates [OF down, of 42 "''sunset''" sample_db sample_image
      "\<lparr>req_method = ''GET'', req_user = Some \<lparr>user_pk = 1, username = ''ann''\<rparr>,
        POST = (\<lambda>k. None)\<rparr>" "\<lparr>user_pk = 1, username = ''ann''\<rparr>" "\<lambda>m. None"]
    found user
  show ?thesis by simp
qed

section \<open>Properties of \<^verbatim>\<open>image_ranking\<close>\<close>

lemma index_of_less: "x \<in> set xs \<Longrightarrow> index_of xs x < length xs"
  unfolding index_of_def by (induction xs) auto

lemma nth_index_of: "x \<in> set xs \<Longrightarrow> xs ! index_of xs x = x"
  unfolding index_of_def by (induction xs) auto

lemma inj_on_index_of: "inj_on (index_of xs) (set xs)"
  by (rule inj_onI) (metis nth_index_of)

lemma index_of_nth: "distinct xs \<Longrightarrow> n < length xs \<Longrightarrow> index_of xs (xs ! n) = n"
  by (metis index_of_less nth_index_of nth_mem nth_eq_iff_index_eq)

lemma map_index_of: "distinct xs \<Longrightarrow> map (index_of xs) xs = [0..<length xs]"
  by (rule nth_equalityI) (simp_all add: index_of_nth)

lemma sorted_index_of_filter:
  assumes "distinct xs"
  shows "sorted (map (index_of xs) (filter Q xs))"
proof -
  have "sorted (map (index_of xs) xs)"
    by (simp add: map_index_of [OF assms])
  then show ?thesis by (rule sorted_filter)
qed

lemma distinct_map_sort_key: "distinct (map f (sort_key k xs)) = distinct (map f xs)"
proof -
  have "mset (map f (sort_key k xs)) = mset (map f xs)"
    by simp
  then show ?thesis by (rule mset_eq_imp_distinct_iff)
qed

lemma ranked_order:
  fixes ids :: "int list" and rows :: "Image list"
  assumes "distinct ids" and "distinct (map image_pk rows)"
  shows "map image_pk
           (sort_key (\<lambda>x. index_of ids (image_pk x))
              (sort_key h (filter (\<lambda>img. image_pk img \<in> set ids) rows))) =
         filter (\<lambda>k. k \<in> image_pk ` set rows) ids"
    (is "map image_pk ?res = ?tgt")
proof -
  let ?M = "sort_key h (filter (\<lambda>img. image_pk img \<in> set ids) rows)"
  have pks: "set (map image_pk ?res) = set ?tgt"
    by auto
  have sub: "set (map image_pk ?res) \<subseteq> set ids"
    by auto
  have d_pk: "distinct (map image_pk ?res)"
    using assms(2) by (simp add: distinct_map_sort_key distinct_map_filter)
  have s1: "sorted (map (index_of ids) (map image_pk ?res))"
    using sorted_sort_key [of "\<lambda>x. index_of ids (image_pk x)" ?M]
    by (simp add: comp_def)
  have d1: "distinct (map (index_of ids) (map image_pk ?res))"
    using d_pk sub inj_on_index_of [of ids]
    by (simp only: distinct_map) (blast intro: inj_on_subset)
  have s2: "sorted (map (index_of ids) ?tgt)"
    by (rule sorted_index_of_filter [OF assms(1)])
  have d2: "distinct (map (index_of ids) ?tgt)"
    using assms(1) inj_on_index_of [of ids]
    by (simp only: distinct_map) (auto intro: inj_on_subset)
  have "set (map (index_of ids) (map image_pk ?res)) = set (map (index_of ids) ?tgt)"
    using pks by (metis set_map)
  with s1 d1 s2 d2
  have eq: "map (index_of ids) (map image_pk ?res) = map (index_of ids) ?tgt"
    by (intro sorted_distinct_set_unique)
  have "inj_on (index_of ids) (set (map image_pk ?res) \<union> set ?tgt)"
    using sub by (intro inj_on_subset [OF inj_on_index_of [of ids]]) auto
  with eq show ?thesis
    by (rule inj_on_map_eq_map [THEN iffD1, rotated])
qed


lemma those_map_length: "those (map f xs) = Some ys \<Longrightarrow> length ys = length xs"
  by (induction xs arbitrary: ys) (auto split: option.splits)

text \<open>
  The members \<^verbatim>\<open>zrange\<close> returns are the members of the sorted set, each once, in
  descending order of score.
\<close>

lemma zrange_desc_scores:
  assumes "zrange_desc r key = Inr members"
  shows "\<exists>ranked. mset ranked = mset (zsets r key) \<and> members = map fst ranked \<and>
           sorted (rev (map snd ranked))"
proof -
  let ?f = "\<lambda>(m, sc). (sc, m) :: int \<times> string"
  let ?up = "sort_key ?f (zsets r key)"
  have "sorted (map ?f ?up)"
    by (rule sorted_sort_key)
  then have "sorted_wrt (\<lambda>x y. ?f x \<le> ?f y) ?up"
    by (simp add: sorted_map)
  then have "sorted_wrt (\<lambda>x y. snd x \<le> snd y) ?up"
    by (rule sorted_wrt_mono_rel [rotated]) (auto simp: less_eq_prod_def)
  then have "sorted (map snd ?up)"
    by (simp add: sorted_map)
  then have "sorted (rev (map snd (rev ?up)))"
    by (simp add: rev_map)
  moreover have "mset (rev ?up) = mset (zsets r key)"
    by simp
  moreover have "members = map fst (rev ?up)"
    using assms by (simp add: zrange_desc_def split: if_splits)
  ultimately show ?thesis by blast
qed

text \<open>
  C5. For a logged-in user, \<^verbatim>\<open>image_ranking\<close> renders the images whose keys are among the
  first ten members of the ranking, in the order of the ranking (whatever the order in
  which the database returns them), without the keys that no image has: at most ten
  images, and fewer when a ranked image has been deleted. The ranking names each of the
  ten ids once, and image keys are unique.
\<close>

theorem image_ranking_order:
  assumes "req_user req = Some u"
    and "zrange_desc r ''image_ranking'' = Inr members"
    and "those (map py_int (take 10 members)) = Some ids"
    and "distinct ids"
    and "distinct (map image_pk (images s))"
  shows "\<exists>most_viewed.
           image_ranking py_int r s req = Inr (RenderRanking most_viewed) \<and>
           map image_pk most_viewed = filter (\<lambda>k. k \<in> image_pk ` set (images s)) ids \<and>
           set most_viewed \<subseteq> set (images s) \<and>
           length most_viewed \<le> 10"
proof -
  let ?res = "sort_key (\<lambda>x. index_of ids (image_pk x)) (images_id_in s ids)"
  have fetched: "list_all (\<lambda>x. image_pk x \<in> set ids) (images_id_in s ids)"
    by (simp add: images_id_in_def list_all_iff)
  have run: "image_ranking py_int r s req = Inr (RenderRanking ?res)"
    using assms(1,2,3) fetched by (simp add: image_ranking_def Let_def)
  have order: "map image_pk ?res = filter (\<lambda>k. k \<in> image_pk ` set (images s)) ids"
    unfolding images_id_in_def by (rule ranked_order [OF assms(4,5)])
  have sub: "set ?res \<subseteq> set (images s)"
    by (auto simp: images_id_in_def)
  have "length ids \<le> 10"
    using those_map_length [OF assms(3)] by simp
  moreover have "length ?res = length (map image_pk ?res)"
    by simp
  ultimately have "length ?res \<le> 10"
    unfolding order using length_filter_le [of "\<lambda>k. k \<in> image_pk ` set (images s)" ids]
    by linarith
  with run order sub show ?thesis by blast
qed

theorem image_ranking_order_witness:
  "\<exists>most_viewed.
     image_ranking (map_of [(''42'', 42), (''7'', 7)]) sample_redis sample_db sample_request =
       Inr (RenderRanking most_viewed) \<and>
     map image_pk most_viewed = [42] \<and> length most_viewed \<le> 10"
proof -
  have user: "req_user sample_request = Some \<lparr>user_pk = 1, username = ''ann''\<rparr>"
    by (simp add: sample_request_def)
  have members: "zrange_desc sample_redis ''image_ranking'' = Inr [''7'', ''42'']"
    by (simp add: zrange_desc_def sample_redis_def empty_redis_def)
  have ids: "those (map (map_of [(''42'', 42), (''7'', 7)]) (take 10 [''7'', ''42''])) =
      Some [7, 42::int]"
    by simp
  have d1: "distinct [7, 42::int]"
    by simp
  have d2: "distinct (map image_pk (images sample_db))"
    by (simp add: sample_db_def)
  have "filter (\<lambda>k. k \<in> image_pk ` set (images sample_db)) [7, 42] = [42]"
    by (simp add: sample_db_def sample_image_def)
  with image_ranking_order [OF user members ids d1 d2] show ?thesis
    by auto
qed

section \<open>Properties of \<^verbatim>\<open>dashboard\<close>\<close>

lemma newest_first_iff:
  "sorted (rev (map created rows)) = sorted_wrt (\<lambda>a b. created b \<le> created a) rows"
  by (simp add: sorted_wrt_rev sorted_wrt_map flip: rev_map)

lemma sort_key_newest_first:
  "sorted (rev (map created (sort_key (\<lambda>a. - created a) rows)))"
proof -
  have "sorted (map (\<lambda>a. - created a) (sort_key (\<lambda>a. - created a) rows))"
    by (rule sorted_sort_key)
  then show ?thesis
    by (simp add: newest_first_iff sorted_map)
qed

lemma newest_first_take:
  fixes rows ordered :: "Action list"
  assumes "mset ordered = mset rows" and "sorted (rev (map created ordered))"
  shows "sorted (rev (map created (take n ordered)))"
    and "mset (take n ordered) \<subseteq># mset rows"
    and "length (take n ordered) = min n (length rows)"
    and "a \<in># mset rows - mset (take n ordered) \<Longrightarrow>
           length (take n ordered) = n \<and> (\<forall>b\<in>set (take n ordered). created a \<le> created b)"
proof -
  have desc: "sorted_wrt (\<lambda>a b. created b \<le> created a) ordered"
    using assms(2) by (simp add: newest_first_iff)
  then show "sorted (rev (map created (take n ordered)))"
    by (simp add: newest_first_iff sorted_wrt_take)
  have all: "mset rows = mset (take n ordered) + mset (drop n ordered)"
    by (metis append_take_drop_id assms(1) mset_append)
  then show "mset (take n ordered) \<subseteq># mset rows"
    by simp
  have "length ordered = length rows"
    using assms(1) by (rule mset_eq_length)
  then show "length (take n ordered) = min n (length rows)"
    by (simp add: min.commute)
  assume "a \<in># mset rows - mset (take n ordered)"
  with all have a: "a \<in> set (drop n ordered)"
    by simp
  then have "n < length ordered"
    by (cases "n < length ordered") auto
  then have len: "length (take n ordered) = n"
    by simp
  from desc have "sorted_wrt (\<lambda>a b. created b \<le> created a) (take n ordered @ drop n ordered)"
    by simp
  then have "\<forall>b\<in>set (take n ordered). \<forall>c\<in>set (drop n ordered). created c \<le> created b"
    unfolding sorted_wrt_append by blast
  with a len show "length (take n ordered) = n \<and> (\<forall>b\<in>set (take n ordered). created a \<le> created b)"
    by auto
qed

lemma following_ids_contacts:
  "(following_ids s uid \<noteq> []) = (\<exists>c\<in>set (contacts s). user_from c = uid)"
  "(k \<in> set (following_ids s uid)) = (\<exists>c\<in>set (contacts s). user_from c = uid \<and> user_to c = k)"
  by (auto simp: following_ids_def filter_empty_conv)

text \<open>
  C6. For a logged-in viewer (with no contact from the viewer to themselves, as in every
  reachable state) and a database that returns the rows of the query newest first,
  \<^verbatim>\<open>dashboard\<close> selects the actions whose author is at the \<^verbatim>\<open>user_to\<close> end of a contact
  from the viewer when there is such a contact, and otherwise every action but the
  viewer's own. The feed holds only selected rows, ten of them or all when there are
  fewer, newest first, and a selected row is left out only when the feed is full with rows
  at least as new.
\<close>

theorem dashboard_feed:
  assumes "req_user req = Some user"
    and "\<And>rows. mset (order_by rows) = mset rows"
    and "\<And>rows. sorted (rev (map created (order_by rows)))"
    and "\<forall>c\<in>set (contacts s). user_from c = user_pk user \<longrightarrow> user_to c \<noteq> user_pk user"
  shows "\<exists>feed selected.
           dashboard order_by s req = RenderDashboard feed \<and>
           selected =
             filter (\<lambda>a. if \<exists>c\<in>set (contacts s). user_from c = user_pk user
                          then \<exists>c\<in>set (contacts s).
                                 user_from c = user_pk user \<and> user_to c = user_id a
                          else user_id a \<noteq> user_pk user)
               (actions s) \<and>
           mset feed \<subseteq># mset selected \<and>
           length feed \<le> 10 \<and>
           length feed = min 10 (length selected) \<and>
           sorted (rev (map created feed)) \<and>
           (\<forall>a. a \<in># mset selected - mset feed \<longrightarrow>
                length feed = 10 \<and> (\<forall>b\<in>set feed. created a \<le> created b))"
proof -
  let ?uid = "user_pk user"
  let ?sel = "filter (\<lambda>a. if \<exists>c\<in>set (contacts s). user_from c = ?uid
                          then \<exists>c\<in>set (contacts s). user_from c = ?uid \<and> user_to c = user_id a
                          else user_id a \<noteq> ?uid) (actions s)"
  let ?feed = "take 10 (order_by ?sel)"
  have "(if following_ids s ?uid \<noteq> []
         then filter (\<lambda>a. user_id a \<in> set (following_ids s ?uid))
                (filter (\<lambda>a. user_id a \<noteq> ?uid) (actions s))
         else filter (\<lambda>a. user_id a \<noteq> ?uid) (actions s)) = ?sel"
    unfolding following_ids_contacts using assms(4) by (auto intro: filter_cong)
  then have run: "dashboard order_by s req = RenderDashboard ?feed"
    using assms(1) by (simp add: dashboard_def Let_def)
  have "length ?feed \<le> 10"
    by simp
  with run newest_first_take [where n = 10 and rows = ?sel and ordered = "order_by ?sel",
      OF assms(2) assms(3)]
  show ?thesis
    by blast
qed

theorem dashboard_feed_witness:
  "dashboard (sort_key (\<lambda>a. - created a)) sample_db sample_request =
     RenderDashboard [sample_actions ! 1]"
proof -
  let ?ann = "\<lparr>user_pk = 1, username = ''ann''\<rparr>"
  have user: "req_user sample_request = Some ?ann"
    by (simp add: sample_request_def)
  have perm: "mset (sort_key (\<lambda>a. - created a) rows) = mset rows" for rows :: "Action list"
    by simp
  have noself: "\<forall>c\<in>set (contacts sample_db).
      user_from c = user_pk ?ann \<longrightarrow> user_to c \<noteq> user_pk ?ann"
    by (simp add: sample_db_def)
  from dashboard_feed [of sample_request ?ann "sort_key (\<lambda>a. - created a)" sample_db,
      OF user perm sort_key_newest_first noself]
  obtain feed selected where
    run: "dashboard (sort_key (\<lambda>a. - created a)) sample_db sample_request =
      RenderDashboard feed" and
    sel: "selected =
      filter (\<lambda>a. if \<exists>c\<in>set (contacts sample_db). user_from c = user_pk ?ann
                   then \<exists>c\<in>set (contacts sample_db).
                          user_from c = user_pk ?ann \<and> user_to c = user_id a
                   else user_id a \<noteq> user_pk ?ann)
        (actions sample_db)" and
    sub: "mset feed \<subseteq># mset selected" and
    len: "length feed = min 10 (length selected)"
    by blast
  have "selected = [sample_actions ! 1]"
    unfolding sel by (simp add: sample_db_def sample_actions_def)
  with sub len have "mset feed \<subseteq># {#sample_actions ! 1#}" and "length feed = 1"
    by simp_all
  then have "feed = [sample_actions ! 1]"
    by (cases feed) (auto simp: subset_mset.le_iff_add dest: mset_subset_eq_insertD)
  with run show ?thesis by simp
qed

section \<open>Properties of the follow graph\<close>

lemma user_follow_contacts:
  "c \<in> set (contacts (snd (user_follow now s req))) \<Longrightarrow>
     c \<in> set (contacts s) \<or> user_from c \<noteq> user_to c"
  by (auto simp: user_follow_def split: if_splits option.splits)

lemma user_unfollow_contacts:
  "c \<in> set (contacts (snd (user_unfollow s req))) \<Longrightarrow> c \<in> set (contacts s)"
  by (auto simp: user_unfollow_def split: if_splits option.splits)

lemma reachable_db_no_self_edge:
  "reachable_db s \<Longrightarrow> c \<in> set (contacts s) \<Longrightarrow> user_from c \<noteq> user_to c"
proof (induction arbitrary: c rule: reachable_db.induct)
  case (initial s)
  then show ?case by simp
next
  case (follow s now req)
  then show ?case using user_follow_contacts by blast
next
  case (unfollow s req)
  then show ?case using user_unfollow_contacts by blast
next
  case (other s s')
  then show ?case by simp
qed

lemma find_by_key:
  "x \<in> set xs \<Longrightarrow> distinct (map f xs) \<Longrightarrow> find (\<lambda>u. f u = f x) xs = Some x"
  by (induction xs) (auto simp: image_iff)

text \<open>
  C9. In every reachable state no contact goes from a user to that same user, so no user is
  among the users they follow. And a POST request of a logged-in user with no
  \<^verbatim>\<open>username\<close>, an empty one or the user's own makes \<^verbatim>\<open>user_follow\<close> and
  \<^verbatim>\<open>user_unfollow\<close> answer with their success message and leave the database as it is.
\<close>

theorem follow_graph_no_self_edge:
  "(reachable_db s \<longrightarrow>
      (\<forall>c\<in>set (contacts s). user_from c \<noteq> user_to c) \<and>
      (\<forall>uid. uid \<notin> set (following_ids s uid))) \<and>
   (req_method req = ''POST'' \<and> req_user req = Some me \<and> me \<in> set (users s) \<and>
    distinct (map username (users s)) \<and>
    (POST req ''username'' = None \<or> POST req ''username'' = Some [] \<or>
     POST req ''username'' = Some (username me)) \<longrightarrow>
      user_follow now s req = (Inr (HttpResponse ''User followed successfully''), s) \<and>
      user_unfollow s req = (Inr (HttpResponse ''User unfollowed successfully''), s))"
proof (intro conjI impI ballI allI)
  fix c
  assume "reachable_db s" and "c \<in> set (contacts s)"
  then show "user_from c \<noteq> user_to c"
    by (rule reachable_db_no_self_edge)
next
  fix uid
  assume "reachable_db s"
  then show "uid \<notin> set (following_ids s uid)"
    using reachable_db_no_self_edge [of s] by (auto simp: following_ids_def)
next
  assume a: "req_method req = ''POST'' \<and> req_user req = Some me \<and> me \<in> set (users s) \<and>
    distinct (map username (users s)) \<and>
    (POST req ''username'' = None \<or> POST req ''username'' = Some [] \<or>
     POST req ''username'' = Some (username me))"
  then have own: "find (\<lambda>u. username u = username me) (users s) = Some me"
    by (simp add: find_by_key)
  from a own show "user_follow now s req = (Inr (HttpResponse ''User followed successfully''), s)"
    by (auto simp: user_follow_def)
  from a own show "user_unfollow s req = (Inr (HttpResponse ''User unfollowed successfully''), s)"
    by (auto simp: user_unfollow_def)
qed


theorem follow_graph_no_self_edge_witness:
  "reachable_db (snd (user_follow 5 (sample_db\<lparr>contacts := []\<rparr>)
       (sample_post [(''username'', ''bob'')]))) \<and>
   contacts (snd (user_follow 5 (sample_db\<lparr>contacts := []\<rparr>)
       (sample_post [(''username'', ''bob'')]))) =
     [\<lparr>user_from = 1, user_to = 2, contact_created = 5\<rparr>] \<and>
   list_all (\<lambda>c. user_from c \<noteq> user_to c)
     (contacts (snd (user_follow 5 (sample_db\<lparr>contacts := []\<rparr>)
       (sample_post [(''username'', ''bob'')])))) \<and>
   user_follow 5 sample_db (sample_post [(''username'', ''ann'')]) =
     (Inr (HttpResponse ''User followed successfully''), sample_db) \<and>
   user_unfollow sample_db (sample_post [(''username'', ''ann'')]) =
     (Inr (HttpResponse ''User unfollowed successfully''), sample_db)"
proof -
  let ?ann = "\<lparr>user_pk = 1, username = ''ann''\<rparr>"
  let ?s1 = "snd (user_follow 5 (sample_db\<lparr>contacts := []\<rparr>)
       (sample_post [(''username'', ''bob'')]))"
  have r: "reachable_db ?s1"
    by (rule reachable_db.follow, rule reachable_db.initial) simp
  have c: "contacts ?s1 = [\<lparr>user_from = 1, user_to = 2, contact_created = 5\<rparr>]"
    by (simp add: user_follow_def sample_post_def sample_db_def)
  have pre: "req_method (sample_post [(''username'', ''ann'')]) = ''POST'' \<and>
      req_user (sample_post [(''username'', ''ann'')]) = Some ?ann \<and>
      ?ann \<in> set (users sample_db) \<and> distinct (map username (users sample_db)) \<and>
      (POST (sample_post [(''username'', ''ann'')]) ''username'' = None \<or>
       POST (sample_post [(''username'', ''ann'')]) ''username'' = Some [] \<or>
       POST (sample_post [(''username'', ''ann'')]) ''username'' = Some (username ?ann))"
    by (simp add: sample_post_def sample_db_def)
  from follow_graph_no_self_edge [of ?s1] r
  have "\<forall>c\<in>set (contacts ?s1). user_from c \<noteq> user_to c"
    by blast
  then have "list_all (\<lambda>c. user_from c \<noteq> user_to c) (contacts ?s1)"
    by (simp only: list_all_iff)
  moreover from follow_graph_no_self_edge [of sample_db "sample_post [(''username'', ''ann'')]" ?ann 5] pre
  have "user_follow 5 sample_db (sample_post [(''username'', ''ann'')]) =
      (Inr (HttpResponse ''User followed successfully''), sample_db) \<and>
    user_unfollow sample_db (sample_post [(''username'', ''ann'')]) =
      (Inr (HttpResponse ''User unfollowed successfully''), sample_db)"
    by blast
  ultimately show ?thesis using r c by blast
qed

section \<open>Properties of \<^verbatim>\<open>image_like\<close>\<close>

lemma Image_save_effect:
  "users_like (fst (Image_save slugify s img)) = users_like s"
  "actions (fst (Image_save slugify s img)) = actions s"
  "contacts (fst (Image_save slugify s img)) = contacts s"
  "users (fst (Image_save slugify s img)) = users s"
  "image_pk (snd (Image_save slugify s img)) = image_pk img"
  "total_likes (snd (Image_save slugify s img)) = total_likes img"
  by (simp_all add: Image_save_def Let_def)

lemma Image_save_rows:
  assumes "row \<in> set (images (fst (Image_save slugify s img)))"
    and "image_pk row = image_pk img"
  shows "row = snd (Image_save slugify s img)"
proof -
  have "image_pk img \<notin> image_pk ` set (images s) \<Longrightarrow> row \<notin> set (images s)"
    using assms(2) by (metis imageI)
  with assms show ?thesis
    by (auto simp: Image_save_def Let_def split: if_splits)
qed

lemma Image_save_stored:
  "snd (Image_save slugify s img) \<in> set (images (fst (Image_save slugify s img)))"
  by (auto simp: Image_save_def Let_def image_iff)

lemma users_like_changed_effect:
  "users_like (fst (users_like_changed slugify s inst)) = users_like s"
  "actions (fst (users_like_changed slugify s inst)) = actions s"
  "contacts (fst (users_like_changed slugify s inst)) = contacts s"
  "users (fst (users_like_changed slugify s inst)) = users s"
  "image_pk (snd (users_like_changed slugify s inst)) = image_pk inst"
  "total_likes (snd (users_like_changed slugify s inst)) = users_like_count s (image_pk inst)"
  by (simp_all add: users_like_changed_def Image_save_effect)

lemma users_like_changed_rows:
  assumes "row \<in> set (images (fst (users_like_changed slugify s inst)))"
    and "image_pk row = image_pk inst"
  shows "total_likes row = users_like_count s (image_pk inst)"
proof -
  have "row = snd (users_like_changed slugify s inst)"
    using assms unfolding users_like_changed_def
    by (intro Image_save_rows) simp_all
  then show ?thesis
    by (simp add: users_like_changed_effect)
qed

lemma users_like_changed_stored:
  "\<exists>row\<in>set (images (fst (users_like_changed slugify s inst))). image_pk row = image_pk inst"
  using Image_save_stored [of slugify s "inst\<lparr>total_likes := users_like_count s (image_pk inst)\<rparr>"]
  unfolding users_like_changed_def
  by (metis Image_save_effect(5) Image.select_convs(1) Image.surjective Image.update_convs(6))

lemma users_like_count_cong:
  "users_like s' = users_like s \<Longrightarrow> users_like_count s' k = users_like_count s k"
  by (simp add: users_like_count_def)

lemma users_like_count_card:
  assumes "distinct (users_like s)"
  shows "users_like_count s k = card {u. (k, u) \<in> set (users_like s)}"
proof -
  let ?rows = "filter (\<lambda>(i, u). i = k) (users_like s)"
  have "distinct ?rows"
    using assms by simp
  then have "length ?rows = card (set ?rows)"
    by (rule distinct_card [symmetric])
  also have "set ?rows = Pair k ` {u. (k, u) \<in> set (users_like s)}"
    by auto
  also have "card \<dots> = card {u. (k, u) \<in> set (users_like s)}"
    by (rule card_image) (simp add: inj_on_def)
  finally show ?thesis
    by (simp add: users_like_count_def)
qed

lemma users_like_add_table:
  "users_like (users_like_add slugify s img uid) =
     (if (image_pk img, uid) \<in> set (users_like s) then users_like s
      else users_like s @ [(image_pk img, uid)])"
  by (simp add: users_like_add_def users_like_changed_effect case_prod_beta)

lemma users_like_remove_table:
  "users_like (users_like_remove slugify s img uid) =
     filter (\<lambda>p. p \<noteq> (image_pk img, uid)) (users_like s)"
  by (simp add: users_like_remove_def users_like_changed_effect case_prod_beta)


lemma users_like_add_rows:
  assumes "row \<in> set (images (users_like_add slugify s img uid))"
    and "image_pk row = image_pk img"
  shows "total_likes row = users_like_count (users_like_add slugify s img uid) (image_pk img)"
proof -
  let ?s1 = "fst (users_like_changed slugify s img)"
  let ?img1 = "snd (users_like_changed slugify s img)"
  let ?s2 = "?s1\<lparr>users_like :=
      (if (image_pk img, uid) \<in> set (users_like ?s1) then users_like ?s1
       else users_like ?s1 @ [(image_pk img, uid)])\<rparr>"
  have final: "users_like_add slugify s img uid = fst (users_like_changed slugify ?s2 ?img1)"
    by (simp add: users_like_add_def case_prod_beta)
  have pk: "image_pk ?img1 = image_pk img"
    by (simp add: users_like_changed_effect)
  have "total_likes row = users_like_count ?s2 (image_pk ?img1)"
    using assms unfolding final by (intro users_like_changed_rows) (simp_all add: pk)
  moreover have "users_like_count (users_like_add slugify s img uid) (image_pk img) =
      users_like_count ?s2 (image_pk img)"
    unfolding final by (rule users_like_count_cong) (simp add: users_like_changed_effect)
  ultimately show ?thesis by (simp add: pk)
qed

lemma users_like_remove_rows:
  assumes "row \<in> set (images (users_like_remove slugify s img uid))"
    and "image_pk row = image_pk img"
  shows "total_likes row = users_like_count (users_like_remove slugify s img uid) (image_pk img)"
proof -
  let ?s1 = "fst (users_like_changed slugify s img)"
  let ?img1 = "snd (users_like_changed slugify s img)"
  let ?s2 = "?s1\<lparr>users_like := filter (\<lambda>p. p \<noteq> (image_pk img, uid)) (users_like ?s1)\<rparr>"
  have final: "users_like_remove slugify s img uid = fst (users_like_changed slugify ?s2 ?img1)"
    by (simp add: users_like_remove_def case_prod_beta)
  have pk: "image_pk ?img1 = image_pk img"
    by (simp add: users_like_changed_effect)
  have "total_likes row = users_like_count ?s2 (image_pk ?img1)"
    using assms unfolding final by (intro users_like_changed_rows) (simp_all add: pk)
  moreover have "users_like_count (users_like_remove slugify s img uid) (image_pk img) =
      users_like_count ?s2 (image_pk img)"
    unfolding final by (rule users_like_count_cong) (simp add: users_like_changed_effect)
  ultimately show ?thesis by (simp add: pk)
qed

lemma users_like_add_stored:
  "\<exists>row\<in>set (images (users_like_add slugify s img uid)). image_pk row = image_pk img"
proof -
  let ?s1 = "fst (users_like_changed slugify s img)"
  let ?img1 = "snd (users_like_changed slugify s img)"
  let ?s2 = "?s1\<lparr>users_like :=
      (if (image_pk img, uid) \<in> set (users_like ?s1) then users_like ?s1
       else users_like ?s1 @ [(image_pk img, uid)])\<rparr>"
  have "users_like_add slugify s img uid = fst (users_like_changed slugify ?s2 ?img1)"
    by (simp add: users_like_add_def case_prod_beta)
  with users_like_changed_stored [of slugify ?s2 ?img1] show ?thesis
    by (simp add: users_like_changed_effect)
qed

lemma users_like_remove_stored:
  "\<exists>row\<in>set (images (users_like_remove slugify s img uid)). image_pk row = image_pk img"
proof -
  let ?s1 = "fst (users_like_changed slugify s img)"
  let ?img1 = "snd (users_like_changed slugify s img)"
  let ?s2 = "?s1\<lparr>users_like := filter (\<lambda>p. p \<noteq> (image_pk img, uid)) (users_like ?s1)\<rparr>"
  have "users_like_remove slugify s img uid = fst (users_like_changed slugify ?s2 ?img1)"
    by (simp add: users_like_remove_def case_prod_beta)
  with users_like_changed_stored [of slugify ?s2 ?img1] show ?thesis
    by (simp add: users_like_changed_effect)
qed

lemma create_action_frame:
  "images (snd (create_action now save_now s uid v target)) = images s"
  "users_like (snd (create_action now save_now s uid v target)) = users_like s"
  "contacts (snd (create_action now save_now s uid v target)) = contacts s"
  "users (snd (create_action now save_now s uid v target)) = users s"
  by (simp_all add: create_action_def)

lemma image_like_found:
  assumes "req_user req = Some user" and "req_method req = ''POST''"
    and "POST req ''id'' = Some image_id" and "image_id \<noteq> []"
    and "POST req ''action'' = Some action" and "action \<noteq> []"
    and "py_int image_id = Some k"
    and "find (\<lambda>img. image_pk img = k) (images s) = Some img"
  shows "image_like py_int slugify now save_now s req =
     (Inr (JsonResponse ''ok''),
      if action = ''like''
      then snd (create_action now save_now (users_like_add slugify s img (user_pk user))
                  (user_pk user) ''likes'' (Some (ImageModel, image_pk img)))
      else users_like_remove slugify s img (user_pk user))"
  using assms by (simp add: image_like_def)


text \<open>
  C8. After a like or an unlike that \<^verbatim>\<open>image_like\<close> carries out (logged-in user, POST,
  both parameters given, an image of that id), the image's row is in the table and its
  \<^verbatim>\<open>total_likes\<close> is the number of users who like the image in the resulting through
  table, whatever the field held before. The through table holds each (image, user) pair
  once, before and after.
\<close>

theorem image_like_total_likes:
  assumes "req_user req = Some user" and "req_method req = ''POST''"
    and "POST req ''id'' = Some image_id" and "image_id \<noteq> []"
    and "POST req ''action'' = Some action" and "action \<noteq> []"
    and "py_int image_id = Some k"
    and "find (\<lambda>img. image_pk img = k) (images s) = Some img"
    and "distinct (users_like s)"
  shows "(\<exists>row\<in>set (images (snd (image_like py_int slugify now save_now s req))).
            image_pk row = k) \<and>
         (\<forall>row\<in>set (images (snd (image_like py_int slugify now save_now s req))).
            image_pk row = k \<longrightarrow>
            total_likes row =
              card {u. (k, u) \<in> set (users_like (snd (image_like py_int slugify now save_now s req)))}) \<and>
         distinct (users_like (snd (image_like py_int slugify now save_now s req)))"
proof -
  let ?uid = "user_pk user"
  let ?s' = "snd (image_like py_int slugify now save_now s req)"
  from assms(8) have pk: "image_pk img = k"
    by (auto simp: find_Some_iff)
  define m where "m = (if action = ''like'' then users_like_add slugify s img ?uid
                       else users_like_remove slugify s img ?uid)"
  have run: "image_like py_int slugify now save_now s req =
     (Inr (JsonResponse ''ok''),
      if action = ''like''
      then snd (create_action now save_now (users_like_add slugify s img ?uid)
                  ?uid ''likes'' (Some (ImageModel, image_pk img)))
      else users_like_remove slugify s img ?uid)"
    using assms(1-8) by (rule image_like_found)
  have tables: "images ?s' = images m" "users_like ?s' = users_like m"
    unfolding run m_def by (simp_all add: create_action_frame)
  have d: "distinct (users_like m)"
    using assms(9) by (simp add: m_def users_like_add_table users_like_remove_table pk)
  have stored: "\<exists>row\<in>set (images m). image_pk row = k"
    using users_like_add_stored [of slugify s img ?uid]
      users_like_remove_stored [of slugify s img ?uid]
    by (simp add: m_def pk)
  have count: "total_likes row = users_like_count m k"
    if "row \<in> set (images m)" and "image_pk row = k" for row
    using that users_like_add_rows [of row slugify s img ?uid]
      users_like_remove_rows [of row slugify s img ?uid]
    by (simp add: m_def pk split: if_splits)
  have "total_likes row = card {u. (k, u) \<in> set (users_like m)}"
    if "row \<in> set (images m)" and "image_pk row = k" for row
    using count [OF that] users_like_count_card [OF d] by simp
  with stored d show ?thesis
    unfolding tables by blast
qed

text \<open>
  C10, as the code has it. For a logged-in user and a POST request: with an \<^verbatim>\<open>action\<close>
  that is not empty and not \<^verbatim>\<open>'like'\<close>, and the id of an image that exists,
  \<^verbatim>\<open>image_like\<close> removes the user's pair from the through table and answers
  \<^verbatim>\<open>{'status': 'ok'}\<close>; with \<^verbatim>\<open>id\<close> or \<^verbatim>\<open>action\<close> absent or empty, or with an id that
  converts to an integer no image has, it answers \<^verbatim>\<open>{'status': 'error'}\<close> and returns the
  database as it was.
\<close>

theorem image_like_responses:
  assumes "req_user req = Some user" and "req_method req = ''POST''"
  shows "(POST req ''id'' = Some image_id \<and> image_id \<noteq> [] \<and>
          POST req ''action'' = Some action \<and> action \<noteq> [] \<and> action \<noteq> ''like'' \<and>
          py_int image_id = Some k \<and> find (\<lambda>img. image_pk img = k) (images s) = Some img \<longrightarrow>
            fst (image_like py_int slugify now save_now s req) = Inr (JsonResponse ''ok'') \<and>
            users_like (snd (image_like py_int slugify now save_now s req)) =
              filter (\<lambda>p. p \<noteq> (k, user_pk user)) (users_like s) \<and>
            (k, user_pk user) \<notin> set (users_like (snd (image_like py_int slugify now save_now s req)))) \<and>
         (POST req ''id'' = None \<or> POST req ''id'' = Some [] \<or>
          POST req ''action'' = None \<or> POST req ''action'' = Some [] \<longrightarrow>
            image_like py_int slugify now save_now s req = (Inr (JsonResponse ''error''), s)) \<and>
         (POST req ''id'' = Some image_id \<and> POST req ''action'' = Some action \<and>
          py_int image_id = Some k \<and> k \<notin> image_pk ` set (images s) \<longrightarrow>
            image_like py_int slugify now save_now s req = (Inr (JsonResponse ''error''), s))"
proof (intro conjI impI)
  assume a: "POST req ''id'' = Some image_id \<and> image_id \<noteq> [] \<and>
          POST req ''action'' = Some action \<and> action \<noteq> [] \<and> action \<noteq> ''like'' \<and>
          py_int image_id = Some k \<and> find (\<lambda>img. image_pk img = k) (images s) = Some img"
  then have pk: "image_pk img = k"
    by (auto simp: find_Some_iff)
  from a have run: "image_like py_int slugify now save_now s req =
      (Inr (JsonResponse ''ok''), users_like_remove slugify s img (user_pk user))"
    using assms by (simp add: image_like_found [where py_int = py_int])
  show "fst (image_like py_int slugify now save_now s req) = Inr (JsonResponse ''ok'')"
    by (simp add: run)
  show "users_like (snd (image_like py_int slugify now save_now s req)) =
      filter (\<lambda>p. p \<noteq> (k, user_pk user)) (users_like s)"
    by (simp add: run users_like_remove_table pk)
  then show "(k, user_pk user) \<notin> set (users_like (snd (image_like py_int slugify now save_now s req)))"
    by simp
next
  assume "POST req ''id'' = None \<or> POST req ''id'' = Some [] \<or>
          POST req ''action'' = None \<or> POST req ''action'' = Some []"
  with assms show "image_like py_int slugify now save_now s req = (Inr (JsonResponse ''error''), s)"
    by (auto simp: image_like_def split: option.splits)
next
  assume a: "POST req ''id'' = Some image_id \<and> POST req ''action'' = Some action \<and>
          py_int image_id = Some k \<and> k \<notin> image_pk ` set (images s)"
  then have "find (\<lambda>img. image_pk img = k) (images s) = None"
    by (auto simp: find_None_iff)
  with a assms show "image_like py_int slugify now save_now s req = (Inr (JsonResponse ''error''), s)"
    by (simp add: image_like_def)
qed



theorem image_like_total_likes_witness:
  "(\<exists>row\<in>set (images (snd (image_like (map_of [(''42'', 42)]) (\<lambda>t. t) 100 100 sample_db
        (sample_post [(''id'', ''42''), (''action'', ''like'')])))).
      image_pk row = 42 \<and> total_likes row = 1) \<and>
   users_like (snd (image_like (map_of [(''42'', 42)]) (\<lambda>t. t) 100 100 sample_db
        (sample_post [(''id'', ''42''), (''action'', ''like'')]))) = [(42, 1)]"
proof -
  let ?req = "sample_post [(''id'', ''42''), (''action'', ''like'')]"
  let ?s' = "snd (image_like (map_of [(''42'', 42)]) (\<lambda>t. t) 100 100 sample_db ?req)"
  have pre: "req_user ?req = Some \<lparr>user_pk = 1, username = ''ann''\<rparr>"
    "req_method ?req = ''POST''"
    "POST ?req ''id'' = Some ''42''" "''42'' \<noteq> []"
    "POST ?req ''action'' = Some ''like''" "''like'' \<noteq> []"
    "map_of [(''42'', 42::int)] ''42'' = Some 42"
    by (simp_all add: sample_post_def)
  have found: "find (\<lambda>img. image_pk img = 42) (images sample_db) = Some sample_image"
    by (simp add: sample_db_def sample_image_def)
  have d: "distinct (users_like sample_db)"
    by (simp add: sample_db_def)
  have run: "image_like (map_of [(''42'', 42)]) (\<lambda>t. t) 100 100 sample_db ?req =
     (Inr (JsonResponse ''ok''),
      if ''like'' = ''like''
      then snd (create_action 100 100 (users_like_add (\<lambda>t. t) sample_db sample_image
                  (user_pk \<lparr>user_pk = 1, username = ''ann''\<rparr>))
                  (user_pk \<lparr>user_pk = 1, username = ''ann''\<rparr>) ''likes''
                  (Some (ImageModel, image_pk sample_image)))
      else users_like_remove (\<lambda>t. t) sample_db sample_image
             (user_pk \<lparr>user_pk = 1, username = ''ann''\<rparr>))"
    using pre found by (rule image_like_found)
  have table: "users_like ?s' = [(42, 1)]"
    unfolding run
    by (simp add: create_action_frame users_like_add_table sample_image_def sample_db_def)
  have facts: "(\<exists>row\<in>set (images ?s'). image_pk row = 42) \<and>
      (\<forall>row\<in>set (images ?s'). image_pk row = 42 \<longrightarrow>
         total_likes row = card {u. (42, u) \<in> set (users_like ?s')})"
    using image_like_total_likes [where py_int = "map_of [(''42'', 42)]", OF pre found d]
    by blast
  have "card {u::int. (42::int, u) \<in> set [(42, 1)]} = 1"
    by simp
  with facts table show ?thesis
    by auto
qed

theorem image_like_responses_witness:
  "fst (image_like (map_of [(''42'', 42), (''43'', 43)]) (\<lambda>t. t) 100 100
         (sample_db\<lparr>users_like := [(42, 1), (42, 2)]\<rparr>)
         (sample_post [(''id'', ''42''), (''action'', ''unlike'')])) = Inr (JsonResponse ''ok'') \<and>
   users_like (snd (image_like (map_of [(''42'', 42), (''43'', 43)]) (\<lambda>t. t) 100 100
         (sample_db\<lparr>users_like := [(42, 1), (42, 2)]\<rparr>)
         (sample_post [(''id'', ''42''), (''action'', ''unlike'')]))) = [(42, 2)] \<and>
   image_like (map_of [(''42'', 42), (''43'', 43)]) (\<lambda>t. t) 100 100 sample_db
         (sample_post [(''id'', ''42'')]) = (Inr (JsonResponse ''error''), sample_db) \<and>
   image_like (map_of [(''42'', 42), (''43'', 43)]) (\<lambda>t. t) 100 100 sample_db
         (sample_post [(''id'', ''43''), (''action'', ''like'')]) =
     (Inr (JsonResponse ''error''), sample_db)"
proof -
  let ?py = "map_of [(''42'', 42::int), (''43'', 43)]"
  let ?ann = "\<lparr>user_pk = 1, username = ''ann''\<rparr>"
  let ?liked = "sample_db\<lparr>users_like := [(42, 1), (42, 2)]\<rparr>"
  let ?unlike = "sample_post [(''id'', ''42''), (''action'', ''unlike'')]"
  let ?noaction = "sample_post [(''id'', ''42'')]"
  let ?gone = "sample_post [(''id'', ''43''), (''action'', ''like'')]"
  have auth: "req_user (sample_post ps) = Some ?ann" "req_method (sample_post ps) = ''POST''" for ps
    by (simp_all add: sample_post_def)
  have unlike: "POST ?unlike ''id'' = Some ''42'' \<and> ''42'' \<noteq> [] \<and>
      POST ?unlike ''action'' = Some ''unlike'' \<and> ''unlike'' \<noteq> [] \<and> ''unlike'' \<noteq> ''like'' \<and>
      ?py ''42'' = Some 42 \<and> find (\<lambda>img. image_pk img = 42) (images ?liked) = Some sample_image"
    by (simp add: sample_post_def sample_db_def sample_image_def)
  have noaction: "POST ?noaction ''id'' = None \<or> POST ?noaction ''id'' = Some [] \<or>
      POST ?noaction ''action'' = None \<or> POST ?noaction ''action'' = Some []"
    by (simp add: sample_post_def)
  have gone: "POST ?gone ''id'' = Some ''43'' \<and> POST ?gone ''action'' = Some ''like'' \<and>
      ?py ''43'' = Some 43 \<and> 43 \<notin> image_pk ` set (images sample_db)"
    by (simp add: sample_post_def sample_db_def sample_image_def)
  from image_like_responses [OF auth, where py_int = ?py and image_id = "''42''" and
      action = "''unlike''" and k = 42 and s = ?liked and img = sample_image] unlike
  have 1: "fst (image_like ?py (\<lambda>t. t) 100 100 ?liked ?unlike) = Inr (JsonResponse ''ok'') \<and>
      users_like (snd (image_like ?py (\<lambda>t. t) 100 100 ?liked ?unlike)) =
        filter (\<lambda>p. p \<noteq> (42, user_pk ?ann)) (users_like ?liked)"
    by blast
  from image_like_responses [OF auth, where py_int = ?py and s = sample_db] noaction
  have 2: "image_like ?py (\<lambda>t. t) 100 100 sample_db ?noaction =
      (Inr (JsonResponse ''error''), sample_db)"
    by blast
  from image_like_responses [OF auth, where py_int = ?py and image_id = "''43''" and
      action = "''like''" and k = 43 and s = sample_db] gone
  have 3: "image_like ?py (\<lambda>t. t) 100 100 sample_db ?gone =
      (Inr (JsonResponse ''error''), sample_db)"
    by blast
  from 1 2 3 show ?thesis
    by simp
qed

text \<open>
  C10 as stated fails twice. An empty \<^verbatim>\<open>action\<close> is a value other than \<^verbatim>\<open>'like'\<close>, yet
  \<^verbatim>\<open>if image_id and action\<close> sends it to the error answer and the user's like stays. And
  for an \<^verbatim>\<open>id\<close> that does not convert to an integer, which names no image, the lookup
  raises \<^verbatim>\<open>ValueError\<close>, which \<^verbatim>\<open>except Image.DoesNotExist\<close> does not catch: no
  \<^verbatim>\<open>{'status': 'error'}\<close> is returned.
\<close>

theorem image_like_responses_counterexample:
  "image_like (map_of [(''42'', 42), (''43'', 43)]) (\<lambda>t. t) 100 100
     (sample_db\<lparr>users_like := [(42, 1)]\<rparr>) (sample_post [(''id'', ''42''), (''action'', [])]) =
     (Inr (JsonResponse ''error''), sample_db\<lparr>users_like := [(42, 1)]\<rparr>) \<and>
   map_of [(''42'', 42::int), (''43'', 43)] ''abc'' = None \<and>
   image_like (map_of [(''42'', 42), (''43'', 43)]) (\<lambda>t. t) 100 100 sample_db
     (sample_post [(''id'', ''abc''), (''action'', ''like'')]) = (Inl ValueError, sample_db)"
  by (simp add: image_like_def sample_post_def)

end
